theory Spec2Isabelle
  imports Complex_Main "HOL-Library.Word"
begin

section \<open>Data model of \<^verbatim>\<open>game_video.cpp\<close>\<close>

text \<open>
  \<^verbatim>\<open>cv::Point\<close> is a pair of \<^verbatim>\<open>int\<close> coordinates. Pixel coordinates of a
  1280 x 720 frame, digits, levels, millisecond timestamps and counters stay far below
  \<open>2^31\<close> in every computation modelled here, so the C++ \<^verbatim>\<open>int\<close> is modelled by
  \<open>int\<close>; a run long enough to overflow a counter (undefined behaviour in C++) is outside
  the model.
\<close>

record point =
  px :: int
  py :: int

text \<open>\<^verbatim>\<open>struct HeroStatus { int hero_id; cv::Point position; int level; }\<close>\<close>

record HeroStatus =
  hero_id :: int
  position :: point
  level :: int

text \<open>
  The private and public members of \<^verbatim>\<open>GameVideoAnalyzer\<close> that the modelled member
  functions read or write. The trailing underscore of the C++ member names is dropped;
  \<^verbatim>\<open>hero_id_\<close> (the next unoccupied hero id) is \<open>hero_id_next\<close>, since
  \<open>hero_id\<close> is the field of \<open>HeroStatus\<close>. The three vectors
  \<^verbatim>\<open>heroes_list_\<close>, \<^verbatim>\<open>last_updated_\<close> and \<^verbatim>\<open>appearances_\<close> are parallel: entry \<open>i\<close>
  of each describes the same hero.
\<close>

record analyzer =
  joystick_lu :: point
  joystick_axis :: point
  dist_list :: "real list"
  hero_id_next :: int
  is_heroes_list_initialized :: bool
  last_updated :: "int list"
  appearances :: "int list"
  heroes_list :: "HeroStatus list"

text \<open>The constructor \<^verbatim>\<open>GameVideoAnalyzer::GameVideoAnalyzer()\<close>.\<close>

definition GameVideoAnalyzer :: analyzer where
  "GameVideoAnalyzer =
     \<lparr> joystick_lu = \<lparr> px = 58, py = 411 \<rparr>,
       joystick_axis = \<lparr> px = 206, py = 559 \<rparr>,
       dist_list = [],
       hero_id_next = 0,
       is_heroes_list_initialized = False,
       last_updated = [],
       appearances = [],
       heroes_list = [] \<rparr>"

section \<open>\<^verbatim>\<open>assign_hero\<close>\<close>

text \<open>
  The branch shared by the three "new hero" paths of \<^verbatim>\<open>assign_hero\<close>:
  \<^verbatim>\<open>HeroStatus hero = {hero_id_++, position, level}\<close>, pushed to the frame's
  \<^verbatim>\<open>hero_status_list\<close> and to the three parallel vectors.
\<close>

definition new_hero ::
  "int \<Rightarrow> point \<Rightarrow> HeroStatus list \<Rightarrow> int \<Rightarrow> analyzer \<Rightarrow> HeroStatus list \<times> analyzer" where
  "new_hero lvl pos hero_status_list ts st =
     (let hero = \<lparr> hero_id = hero_id_next st, position = pos, level = lvl \<rparr>
      in (hero_status_list @ [hero],
          st\<lparr> hero_id_next := hero_id_next st + 1,
              heroes_list := heroes_list st @ [hero],
              last_updated := last_updated st @ [ts],
              appearances := appearances st @ [1] \<rparr>))"

text \<open>
  The search loop of \<^verbatim>\<open>assign_hero\<close>:
  \<^verbatim>\<open>double dist_min = 20; int i_min = -1;
  for (i = 0; i < heroes_list_.size(); i++) {
    double dist = sqrt(pow(dx, 2) + pow(dy, 2));
    if (dist < dist_min) { dist_min = dist; i_min = i; } }\<close>
  The distance is the square root of a small non-negative integer; the \<^verbatim>\<open>double\<close>
  square root is monotone and separates distinct integers of this size, so the comparison
  of two such distances is the comparison of the real square roots.
\<close>

definition sq_dist :: "point \<Rightarrow> point \<Rightarrow> int" where
  "sq_dist p q = (px p - px q)\<^sup>2 + (py p - py q)\<^sup>2"

definition hero_dist :: "point \<Rightarrow> point \<Rightarrow> real" where
  "hero_dist p q = sqrt (real_of_int (sq_dist p q))"

definition nearest_step :: "point \<Rightarrow> HeroStatus list \<Rightarrow> nat \<Rightarrow> real \<times> int \<Rightarrow> real \<times> int" where
  "nearest_step pos hs i acc =
     (let dist = hero_dist pos (position (hs ! i))
      in if dist < fst acc then (dist, int i) else acc)"

definition nearest_hero :: "point \<Rightarrow> HeroStatus list \<Rightarrow> int" where
  "nearest_hero pos hs = snd (fold (nearest_step pos hs) [0..<length hs] (20, -1))"

text \<open>
  The same loop on squared distances (threshold \<open>400 = 20\<^sup>2\<close>), which computes on
  integers only; \<open>nearest_hero_sq\<close> below shows that it finds the same index.
\<close>

definition nearest_step_sq :: "point \<Rightarrow> HeroStatus list \<Rightarrow> nat \<Rightarrow> int \<times> int \<Rightarrow> int \<times> int" where
  "nearest_step_sq pos hs i acc =
     (let d2 = sq_dist pos (position (hs ! i))
      in if d2 < fst acc then (d2, int i) else acc)"

definition nearest_hero_sq_impl :: "point \<Rightarrow> HeroStatus list \<Rightarrow> int" where
  "nearest_hero_sq_impl pos hs = snd (fold (nearest_step_sq pos hs) [0..<length hs] (400, -1))"

text \<open>
  \<^verbatim>\<open>void assign_hero(const int& level, const cv::Point& position,
                    std::vector<HeroStatus>* hero_status_list, const int& ts)\<close>
  with the branches in the order of the source. The output parameter
  \<^verbatim>\<open>hero_status_list\<close> and the object are passed in and returned.
\<close>

definition assign_hero ::
  "int \<Rightarrow> point \<Rightarrow> HeroStatus list \<Rightarrow> int \<Rightarrow> analyzer \<Rightarrow> HeroStatus list \<times> analyzer" where
  "assign_hero lvl pos hero_status_list ts st =
     (if \<not> is_heroes_list_initialized st then new_hero lvl pos hero_status_list ts st
      else
        let i_min = nearest_hero pos (heroes_list st); k = nat i_min in
        if i_min = -1 \<or> (i_min \<noteq> -1 \<and> ts - last_updated st ! k > 3000)
                      \<or> (i_min \<noteq> -1 \<and> lvl < level (heroes_list st ! k))
        then new_hero lvl pos hero_status_list ts st
        else if lvl = level (heroes_list st ! k) then
          (hero_status_list @ [\<lparr> hero_id = hero_id (heroes_list st ! k), position = pos, level = lvl \<rparr>],
           st\<lparr> heroes_list := (heroes_list st)[k := (heroes_list st ! k)\<lparr> position := pos \<rparr>],
               last_updated := (last_updated st)[k := ts],
               appearances := (appearances st)[k := appearances st ! k + 1] \<rparr>)
        else if lvl = level (heroes_list st ! k) + 1 then
          (hero_status_list @ [\<lparr> hero_id = hero_id (heroes_list st ! k), position = pos, level = lvl \<rparr>],
           st\<lparr> heroes_list := (heroes_list st)[k := (heroes_list st ! k)\<lparr> position := pos, level := lvl \<rparr>],
               last_updated := (last_updated st)[k := ts],
               appearances := (appearances st)[k := appearances st ! k + 1] \<rparr>)
        else new_hero lvl pos hero_status_list ts st)"

section \<open>The digit-pairing loop of \<^verbatim>\<open>track_hero\<close>\<close>

text \<open>
  \<^verbatim>\<open>track_hero\<close> first fills \<^verbatim>\<open>rect_num_vec\<close>, a vector of (top-left corner of
  the bounding box, recognised digit), from the contours of the frame (OpenCV). The loop
  modelled here consumes that vector:
  \<^verbatim>\<open>if (abs(p1.y - p2.y) < 3 && abs(p1.x - p2.x) < 15 && abs(p1.x - p2.x) > 8) {
    int hero_level = (p1.x > p2.x) ? num1 + 10 * num2 : num2 + 10 * num1;
    if (hero_level <= 15) {
      assign_hero(hero_level, p1.x > p2.x ? p1 : p2, hero_status_list, ts);
      is_single_digit[i] = false; is_single_digit[j] = false; break; } }\<close>
\<close>

definition same_icon :: "point \<Rightarrow> point \<Rightarrow> bool" where
  "same_icon p1 p2 \<longleftrightarrow> \<bar>py p1 - py p2\<bar> < 3 \<and> \<bar>px p1 - px p2\<bar> < 15 \<and> \<bar>px p1 - px p2\<bar> > 8"

definition hero_level :: "point \<Rightarrow> int \<Rightarrow> point \<Rightarrow> int \<Rightarrow> int" where
  "hero_level p1 num1 p2 num2 = (if px p1 > px p2 then num1 + 10 * num2 else num2 + 10 * num1)"

definition level_anchor :: "point \<Rightarrow> point \<Rightarrow> point" where
  "level_anchor p1 p2 = (if px p1 > px p2 then p1 else p2)"

text \<open>
  The inner \<^verbatim>\<open>for (j = i + 1; j < rect_num_vec.size(); j++)\<close>: the first \<open>j\<close> that
  pairs with \<open>i\<close> into a level of at most 15 (where the source breaks), if any.
\<close>

definition pair_partner :: "(point \<times> int) list \<Rightarrow> nat \<Rightarrow> nat option" where
  "pair_partner rect_num_vec i =
     List.find (\<lambda>j. same_icon (fst (rect_num_vec ! i)) (fst (rect_num_vec ! j)) \<and>
                    hero_level (fst (rect_num_vec ! i)) (snd (rect_num_vec ! i))
                               (fst (rect_num_vec ! j)) (snd (rect_num_vec ! j)) \<le> 15)
       [Suc i..<length rect_num_vec]"

text \<open>
  One iteration of the outer loop. The loop state is the vector \<^verbatim>\<open>is_single_digit\<close>,
  the frame's \<^verbatim>\<open>hero_status_list\<close> and the object.
\<close>

definition pairing_step ::
  "(point \<times> int) list \<Rightarrow> int \<Rightarrow> nat \<Rightarrow> bool list \<times> HeroStatus list \<times> analyzer
     \<Rightarrow> bool list \<times> HeroStatus list \<times> analyzer" where
  "pairing_step rect_num_vec ts i s =
     (case s of (is_single_digit, hero_status_list, st) \<Rightarrow>
        if \<not> is_single_digit ! i then s
        else
          let p1 = fst (rect_num_vec ! i); num1 = snd (rect_num_vec ! i) in
          (case pair_partner rect_num_vec i of
             Some j \<Rightarrow>
               let p2 = fst (rect_num_vec ! j); num2 = snd (rect_num_vec ! j);
                   (hsl, st') = assign_hero (hero_level p1 num1 p2 num2) (level_anchor p1 p2)
                                  hero_status_list ts st
               in (is_single_digit[i := False, j := False], hsl, st')
           | None \<Rightarrow>
               if num1 > 0 then
                 (let (hsl, st') = assign_hero num1 p1 hero_status_list ts st
                  in (is_single_digit, hsl, st'))
               else s))"

text \<open>
  \<^verbatim>\<open>track_hero\<close> from the filled \<^verbatim>\<open>rect_num_vec\<close> on: the pairing loop, then
  \<^verbatim>\<open>if (is_heroes_list_initialized_ == false) is_heroes_list_initialized_ = true;\<close>.
\<close>

definition track_hero ::
  "(point \<times> int) list \<Rightarrow> HeroStatus list \<Rightarrow> int \<Rightarrow> analyzer \<Rightarrow> HeroStatus list \<times> analyzer" where
  "track_hero rect_num_vec hero_status_list ts st =
     (case fold (pairing_step rect_num_vec ts) [0..<length rect_num_vec]
             (replicate (length rect_num_vec) True, hero_status_list, st) of
        (flags, hsl, st') \<Rightarrow> (hsl, st'\<lparr> is_heroes_list_initialized := True \<rparr>))"

section \<open>\<^verbatim>\<open>delete_inactive_heroes\<close>\<close>

text \<open>\<^verbatim>\<open>v.erase(v.begin() + i)\<close>\<close>

definition erase :: "'a list \<Rightarrow> nat \<Rightarrow> 'a list" where
  "erase v i = take i v @ drop (Suc i) v"

text \<open>
  \<^verbatim>\<open>for (size_t i = 0; i < heroes_list_.size(); i++) {
    if ((ts - last_updated_[i] > inactive_time) && (appearances_[i] < num_app)) {
      heroes_list_.erase(hero_it); last_updated_.erase(lu_it); appearances_.erase(ap_it); } }\<close>
  The index advances after an erasure as after any other iteration, and the bound is the
  current size of the vector.
\<close>

function delete_loop :: "int \<Rightarrow> int \<Rightarrow> int \<Rightarrow> nat \<Rightarrow> analyzer \<Rightarrow> analyzer" where
  "delete_loop ts inactive_time num_app i st =
     (if i < length (heroes_list st) then
        (if ts - last_updated st ! i > inactive_time \<and> appearances st ! i < num_app
         then delete_loop ts inactive_time num_app (Suc i)
                (st\<lparr> heroes_list := erase (heroes_list st) i,
                    last_updated := erase (last_updated st) i,
                    appearances := erase (appearances st) i \<rparr>)
         else delete_loop ts inactive_time num_app (Suc i) st)
      else st)"
  by pat_completeness auto
termination
  by (relation "measure (\<lambda>(ts, inactive_time, num_app, i, st). length (heroes_list st) - i)")
     (auto simp: erase_def)

declare delete_loop.simps [simp del]

definition delete_inactive_heroes :: "int \<Rightarrow> int \<Rightarrow> int \<Rightarrow> analyzer \<Rightarrow> analyzer" where
  "delete_inactive_heroes ts inactive_time num_app st = delete_loop ts inactive_time num_app 0 st"

section \<open>Runs of the tracker\<close>

text \<open>
  The operations that change the tracking state: a call of \<^verbatim>\<open>assign_hero\<close>, the end of
  a \<^verbatim>\<open>track_hero\<close> call (which marks the heroes list initialized), and a call of
  \<^verbatim>\<open>delete_inactive_heroes\<close>. Besides the object, \<open>apply_op\<close> threads the list of the
  identities of all entries appended to \<^verbatim>\<open>heroes_list_\<close> so far, in the order of their
  creation; \<open>run_ops\<close> starts from the freshly constructed object.
\<close>

datatype tracker_op = Assign int point int | Frame_end | Delete_inactive int int int

fun apply_op :: "tracker_op \<Rightarrow> analyzer \<times> int list \<Rightarrow> analyzer \<times> int list" where
  "apply_op (Assign lvl pos ts) (st, created) =
     (let st' = snd (assign_hero lvl pos [] ts st)
      in (st', created @ map hero_id (drop (length (heroes_list st)) (heroes_list st'))))"
| "apply_op Frame_end (st, created) = (st\<lparr> is_heroes_list_initialized := True \<rparr>, created)"
| "apply_op (Delete_inactive ts inactive_time num_app) (st, created) =
     (delete_inactive_heroes ts inactive_time num_app st, created)"

definition run_ops :: "tracker_op list \<Rightarrow> analyzer \<times> int list" where
  "run_ops ops = fold apply_op ops (GameVideoAnalyzer, [])"

text \<open>
  The representation invariant of the tracking state: the three parallel vectors have the
  same length, the identities in \<^verbatim>\<open>heroes_list_\<close> increase strictly with the index, and
  every identity in use is below the next unoccupied one.
\<close>

definition tracker_inv :: "analyzer \<Rightarrow> bool" where
  "tracker_inv st \<longleftrightarrow>
     length (last_updated st) = length (heroes_list st) \<and>
     length (appearances st) = length (heroes_list st) \<and>
     sorted_wrt (<) (map hero_id (heroes_list st)) \<and>
     0 \<le> hero_id_next st \<and>
     (\<forall>h \<in> set (heroes_list st). 0 \<le> hero_id h \<and> hero_id h < hero_id_next st)"

section \<open>Scenarios and auxiliary notions for the tracker\<close>

text \<open>
  The state after \<open>new\<close> was appended to \<^verbatim>\<open>heroes_list_\<close> at time \<open>ts\<close>, every new entry
  with one appearance.
\<close>

definition created_fresh :: "analyzer \<Rightarrow> HeroStatus list \<Rightarrow> int \<Rightarrow> analyzer" where
  "created_fresh st new ts =
     st\<lparr> hero_id_next := hero_id_next st + int (length new),
         heroes_list := heroes_list st @ new,
         last_updated := last_updated st @ replicate (length new) ts,
         appearances := appearances st @ replicate (length new) 1 \<rparr>"

text \<open>
  Four frames with one digit reading each, processed by \<^verbatim>\<open>track_hero\<close> from the freshly
  constructed object: level 5 at (100,100) at 0 ms and at 500 ms, level 6 at (102,101) at
  1000 ms and at 4200 ms.
\<close>

definition reading_frame1 :: "HeroStatus list \<times> analyzer" where
  "reading_frame1 = track_hero [(\<lparr> px = 100, py = 100 \<rparr>, 5)] [] 0 GameVideoAnalyzer"
definition reading_frame2 :: "HeroStatus list \<times> analyzer" where
  "reading_frame2 = track_hero [(\<lparr> px = 100, py = 100 \<rparr>, 5)] [] 500 (snd reading_frame1)"
definition reading_frame3 :: "HeroStatus list \<times> analyzer" where
  "reading_frame3 = track_hero [(\<lparr> px = 102, py = 101 \<rparr>, 6)] [] 1000 (snd reading_frame2)"
definition reading_frame4 :: "HeroStatus list \<times> analyzer" where
  "reading_frame4 = track_hero [(\<lparr> px = 102, py = 101 \<rparr>, 6)] [] 4200 (snd reading_frame3)"

text \<open>
  A state reached by the frame loop of \<^verbatim>\<open>main\<close>: the first frame (0 ms) has two
  single-digit readings far apart, \<^verbatim>\<open>delete_inactive_heroes(0, 1000, 5)\<close> follows it, and
  the frame at 1500 ms has no reading. Both heroes then have one appearance and were last
  seen at 0 ms.
\<close>

definition two_stale :: analyzer where
  "two_stale = snd (track_hero [] [] 1500
      (delete_inactive_heroes 0 1000 5
        (snd (track_hero [(\<lparr> px = 100, py = 100 \<rparr>, 3), (\<lparr> px = 300, py = 200 \<rparr>, 4)] [] 0 GameVideoAnalyzer))))"

text \<open>
  The tracked heroes as records: entry \<open>i\<close> of \<^verbatim>\<open>heroes_list_\<close> with entry \<open>i\<close> of
  \<^verbatim>\<open>last_updated_\<close> and of \<^verbatim>\<open>appearances_\<close>; and the condition under which
  \<^verbatim>\<open>delete_inactive_heroes\<close> erases an entry it visits.
\<close>

definition entries :: "analyzer \<Rightarrow> (HeroStatus \<times> int \<times> int) list" where
  "entries st = zip (heroes_list st) (zip (last_updated st) (appearances st))"

definition evictable :: "int \<Rightarrow> int \<Rightarrow> int \<Rightarrow> HeroStatus \<times> int \<times> int \<Rightarrow> bool" where
  "evictable ts inactive_time num_app e \<longleftrightarrow> ts - fst (snd e) > inactive_time \<and> snd (snd e) < num_app"

text \<open>
  A state with a fleeting hero (one appearance) and an established one (ten appearances),
  both last seen at 0 ms.
\<close>

definition fleeting_and_established :: analyzer where
  "fleeting_and_established =
     GameVideoAnalyzer\<lparr> hero_id_next := 2, is_heroes_list_initialized := True,
       last_updated := [0, 0], appearances := [1, 10],
       heroes_list := [\<lparr>hero_id = 0, position = \<lparr> px = 100, py = 100 \<rparr>, level = 3\<rparr>,
                       \<lparr>hero_id = 1, position = \<lparr> px = 300, py = 200 \<rparr>, level = 4\<rparr>] \<rparr>"

section \<open>The readings of a frame\<close>

text \<open>
  What one pass of the pairing loop of \<^verbatim>\<open>track_hero\<close> hands to \<^verbatim>\<open>assign_hero\<close>,
  independently of the tracking state. At index \<open>i\<close> with the flags \<open>is_single_digit\<close>:
  nothing if reading \<open>i\<close> was consumed by an earlier pair; the composed level and its
  anchor if reading \<open>i\<close> has a partner; the digit itself and its corner if it has no partner
  and is greater than 0; nothing for an unpaired digit 0. \<open>loop_flags\<close> is the flag vector
  after index \<open>i\<close>, and \<open>frame_readings\<close> the list of all (level, position) readings of a
  frame in the order of the loop.
\<close>

definition loop_reading :: "(point \<times> int) list \<Rightarrow> bool list \<Rightarrow> nat \<Rightarrow> (int \<times> point) option" where
  "loop_reading rect_num_vec is_single_digit i =
     (if \<not> is_single_digit ! i then None
      else
        case pair_partner rect_num_vec i of
          Some j \<Rightarrow>
            Some (hero_level (fst (rect_num_vec ! i)) (snd (rect_num_vec ! i))
                             (fst (rect_num_vec ! j)) (snd (rect_num_vec ! j)),
                  level_anchor (fst (rect_num_vec ! i)) (fst (rect_num_vec ! j)))
        | None \<Rightarrow>
            if snd (rect_num_vec ! i) > 0 then Some (snd (rect_num_vec ! i), fst (rect_num_vec ! i))
            else None)"

definition loop_flags :: "(point \<times> int) list \<Rightarrow> bool list \<Rightarrow> nat \<Rightarrow> bool list" where
  "loop_flags rect_num_vec is_single_digit i =
     (if \<not> is_single_digit ! i then is_single_digit
      else
        case pair_partner rect_num_vec i of
          Some j \<Rightarrow> is_single_digit[i := False, j := False]
        | None \<Rightarrow> is_single_digit)"

fun readings_from :: "(point \<times> int) list \<Rightarrow> bool list \<Rightarrow> nat list \<Rightarrow> (int \<times> point) list" where
  "readings_from rect_num_vec is_single_digit [] = []"
| "readings_from rect_num_vec is_single_digit (i # js) =
     (case loop_reading rect_num_vec is_single_digit i of None \<Rightarrow> [] | Some r \<Rightarrow> [r])
     @ readings_from rect_num_vec (loop_flags rect_num_vec is_single_digit i) js"

definition frame_readings :: "(point \<times> int) list \<Rightarrow> (int \<times> point) list" where
  "frame_readings rect_num_vec =
     readings_from rect_num_vec (replicate (length rect_num_vec) True) [0..<length rect_num_vec]"

text \<open>
  One new hero for every reading of a list, in order, with the identities \<open>n\<close>, \<open>n + 1\<close>,
  and so on.
\<close>

fun fresh_heroes :: "int \<Rightarrow> (int \<times> point) list \<Rightarrow> HeroStatus list" where
  "fresh_heroes n [] = []"
| "fresh_heroes n (r # rs) = \<lparr> hero_id = n, position = snd r, level = fst r \<rparr> # fresh_heroes (n + 1) rs"

section \<open>The joystick\<close>

text \<open>
  The \<^verbatim>\<open>double\<close> values of the joystick code are modelled by real numbers, extended by
  the special values that a division by zero produces. Rounding is not modelled: the
  statements below about the arithmetic are statements about the exact values.
\<close>

datatype dbl = Fin real | PInf | NInf | NaN

text \<open>
  Conversion of a \<^verbatim>\<open>float\<close> or \<^verbatim>\<open>double\<close> to \<^verbatim>\<open>int\<close>: truncation towards zero
  (values outside the range of \<^verbatim>\<open>int\<close> do not occur for pixel coordinates and distances).
\<close>

definition trunc_int :: "real \<Rightarrow> int" where
  "trunc_int r = (if 0 \<le> r then \<lfloor>r\<rfloor> else \<lceil>r\<rceil>)"

text \<open>The C library function \<^verbatim>\<open>atan2(y, x)\<close> and \<^verbatim>\<open>#define PI 3.14159265\<close>.\<close>

definition atan2 :: "real \<Rightarrow> real \<Rightarrow> real" where
  "atan2 y x =
     (if 0 < x then arctan (y / x)
      else if x < 0 \<and> 0 \<le> y then arctan (y / x) + pi
      else if x < 0 then arctan (y / x) - pi
      else if 0 < y then pi / 2
      else if y < 0 then - (pi / 2)
      else 0)"

definition PI :: real where
  "PI = 3.14159265"

text \<open>
  \<^verbatim>\<open>double estimate_joystick_angle(cv::Mat* src)\<close>. The circles found by
  \<^verbatim>\<open>cv::HoughCircles\<close> in the joystick rectangle of the frame are a parameter; the
  drawing calls do not affect the result. \<^verbatim>\<open>cv::Point(circles[0][0], circles[0][1])\<close>
  converts the two \<^verbatim>\<open>float\<close> coordinates to \<^verbatim>\<open>int\<close>.
\<close>

definition circle_center :: "real \<times> real \<times> real \<Rightarrow> analyzer \<Rightarrow> point" where
  "circle_center c st =
     \<lparr> px = px (joystick_lu st) + trunc_int (fst c),
       py = py (joystick_lu st) + trunc_int (fst (snd c)) \<rparr>"

definition estimate_joystick_angle :: "(real \<times> real \<times> real) list \<Rightarrow> analyzer \<Rightarrow> real \<times> analyzer" where
  "estimate_joystick_angle circles st =
     (case circles of
        [] \<Rightarrow> (666, st)
      | c # cs \<Rightarrow>
          (atan2 (real_of_int (py (joystick_axis st) - py (circle_center c st)))
                 (real_of_int (px (circle_center c st) - px (joystick_axis st))) * 180 / PI,
           st\<lparr> dist_list := dist_list st @
                 [sqrt (real_of_int ((px (circle_center c st) - px (joystick_axis st))\<^sup>2 +
                                     (py (circle_center c st) - py (joystick_axis st))\<^sup>2))] \<rparr>))"

text \<open>
  \<^verbatim>\<open>std::accumulate(std::begin(dist_list_), std::end(dist_list_), 0)\<close>: the initial value
  \<^verbatim>\<open>0\<close> is an \<^verbatim>\<open>int\<close>, so the accumulator is an \<^verbatim>\<open>int\<close> and every step
  \<^verbatim>\<open>acc = acc + *it\<close> converts the \<^verbatim>\<open>double\<close> sum back to \<^verbatim>\<open>int\<close>.
\<close>

definition accumulate_int :: "real list \<Rightarrow> int \<Rightarrow> int" where
  "accumulate_int xs init = fold (\<lambda>d acc. trunc_int (real_of_int acc + d)) xs init"

text \<open>
  \<^verbatim>\<open>err_sum / (dist_list_.size() - 1)\<close>, a \<^verbatim>\<open>double\<close> divided by a \<^verbatim>\<open>size_t\<close>, and
  \<^verbatim>\<open>sqrt\<close> of the quotient, with the IEEE results for a zero divisor.
\<close>

definition div_size :: "real \<Rightarrow> nat \<Rightarrow> dbl" where
  "div_size x n =
     (if n = 0 then (if 0 < x then PInf else if x < 0 then NInf else NaN)
      else Fin (x / real n))"

fun sqrt_dbl :: "dbl \<Rightarrow> dbl" where
  "sqrt_dbl (Fin r) = (if r < 0 then NaN else Fin (sqrt r))"
| "sqrt_dbl PInf = PInf"
| "sqrt_dbl NInf = NaN"
| "sqrt_dbl NaN = NaN"

text \<open>
  \<^verbatim>\<open>void estimate_js_axis_status(double* mean, double* stdvar)\<close>. The two output
  parameters are passed in with the values they hold at the call (\<^verbatim>\<open>main\<close> passes
  uninitialized variables) and returned; the early return leaves them as they are.
\<close>

definition estimate_js_axis_status :: "analyzer \<Rightarrow> dbl \<times> dbl \<Rightarrow> dbl \<times> dbl" where
  "estimate_js_axis_status st out =
     (if dist_list st = [] then out
      else
        let mean = real_of_int (accumulate_int (dist_list st) 0) / real (length (dist_list st));
            err_sum = fold (\<lambda>d s. s + (d - mean)\<^sup>2) (dist_list st) 0
        in (Fin mean, sqrt_dbl (div_size err_sum (length (dist_list st) - 1))))"

text \<open>
  The sample statistic of the specification: arithmetic mean and standard deviation with
  divisor \<open>n - 1\<close>.
\<close>

definition sample_mean :: "real list \<Rightarrow> real" where
  "sample_mean xs = sum_list xs / real (length xs)"

definition sample_stddev :: "real list \<Rightarrow> real" where
  "sample_stddev xs = sqrt ((\<Sum>x\<leftarrow>xs. (x - sample_mean xs)\<^sup>2) / real (length xs - 1))"

text \<open>
  States of the joystick sample list reached by \<^verbatim>\<open>estimate_joystick_angle\<close> from the
  freshly constructed object: two frames whose first circle has its centre at (149.3,
  149.8) in the joystick rectangle, that is at pixel (207, 560), one pixel right of and one
  below the axis (206, 559); and one frame whose first circle has its centre at pixel
  (209, 563).
\<close>

definition two_diagonal_samples :: analyzer where
  "two_diagonal_samples =
     snd (estimate_joystick_angle [(149.3, 149.8, 45)]
       (snd (estimate_joystick_angle [(149.3, 149.8, 45)] GameVideoAnalyzer)))"

definition one_sample :: analyzer where
  "one_sample = snd (estimate_joystick_angle [(151, 152, 45)] GameVideoAnalyzer)"

section \<open>Double precision\<close>

text \<open>
  The digit recognition compares quotients of \<^verbatim>\<open>double\<close> values with constants and with
  each other, so there the rounding of the arithmetic is modelled: \<open>dbl_round x\<close> is the
  \<^verbatim>\<open>double\<close> nearest to the real number \<open>x\<close>, with 53 significant bits and ties rounded
  to the even significand (IEEE 754 binary64, round to nearest). All quantities that are
  rounded below are quotients and products of pixel counts and thresholds, far from the
  overflow and underflow thresholds. A \<^verbatim>\<open>double\<close> literal such as \<^verbatim>\<open>1.2\<close> is
  \<open>dbl_round 1.2\<close>, and a \<^verbatim>\<open>double\<close> argument given as a real number is its rounding.
  \<open>expo2 y\<close> is the binary exponent of a positive number \<open>y\<close>, the integer \<open>e\<close> with
  \<open>2 ^ e \<le> y < 2 ^ (e + 1)\<close>; \<open>pow2 e\<close> is the power \<open>2 ^ e\<close> for an integer \<open>e\<close>;
  \<open>round_even\<close> rounds to the nearest integer, a tie to the even one.
\<close>

function expo2 :: "real \<Rightarrow> int" where
  "expo2 y = (if y \<le> 0 then 0
              else if 2 \<le> y then expo2 (y / 2) + 1
              else if y < 1 then expo2 (y * 2) - 1
              else 0)"
  by pat_completeness auto
termination
proof (relation "measure (\<lambda>y. nat \<bar>\<lfloor>log 2 y\<rfloor>\<bar>)")
  show "wf (measure (\<lambda>y. nat \<bar>\<lfloor>log 2 y\<rfloor>\<bar>))" by simp
next
  fix y :: real assume a: "\<not> y \<le> 0" "2 \<le> y"
  then have "1 \<le> log 2 y" by (simp add: le_log_iff)
  then have f: "1 \<le> \<lfloor>log 2 y\<rfloor>" by simp
  from a have "log 2 (y / 2) = log 2 y - 1" by (simp add: log_divide)
  then have "\<lfloor>log 2 (y / 2)\<rfloor> = \<lfloor>log 2 y\<rfloor> - 1" by simp
  with f show "(y / 2, y) \<in> measure (\<lambda>y. nat \<bar>\<lfloor>log 2 y\<rfloor>\<bar>)" by simp
next
  fix y :: real assume a: "\<not> y \<le> 0" "\<not> 2 \<le> y" "y < 1"
  then have "log 2 y < 0" by simp
  then have f: "\<lfloor>log 2 y\<rfloor> \<le> - 1" by (simp add: floor_le_iff)
  from a have "log 2 (y * 2) = log 2 y + 1" by (simp add: log_mult)
  then have "\<lfloor>log 2 (y * 2)\<rfloor> = \<lfloor>log 2 y\<rfloor> + 1" by simp
  with f show "(y * 2, y) \<in> measure (\<lambda>y. nat \<bar>\<lfloor>log 2 y\<rfloor>\<bar>)" by simp
qed

declare expo2.simps [simp del]

definition pow2 :: "int \<Rightarrow> real" where
  "pow2 e = (if 0 \<le> e then 2 ^ nat e else 1 / 2 ^ nat (- e))"

definition round_even :: "real \<Rightarrow> int" where
  "round_even x =
     (if x - of_int \<lfloor>x\<rfloor> < 1 / 2 then \<lfloor>x\<rfloor>
      else if 1 / 2 < x - of_int \<lfloor>x\<rfloor> then \<lfloor>x\<rfloor> + 1
      else if even \<lfloor>x\<rfloor> then \<lfloor>x\<rfloor> else \<lfloor>x\<rfloor> + 1)"

definition dbl_round :: "real \<Rightarrow> real" where
  "dbl_round x =
     (if x = 0 then 0
      else of_int (round_even (x / pow2 (expo2 \<bar>x\<bar> - 52))) * pow2 (expo2 \<bar>x\<bar> - 52))"

text \<open>
  Division of two \<^verbatim>\<open>double\<close> values, and the comparisons \<^verbatim>\<open>a > c\<close> and \<^verbatim>\<open>a < c\<close> of a
  \<^verbatim>\<open>double\<close> with a finite constant; every comparison with a NaN is false. The values
  divided below are not negative, so a zero is a positive zero.
\<close>

fun ddiv :: "dbl \<Rightarrow> dbl \<Rightarrow> dbl" where
  "ddiv NaN b = NaN"
| "ddiv a NaN = NaN"
| "ddiv (Fin x) (Fin y) =
     (if y = 0 then (if x = 0 then NaN else if 0 < x then PInf else NInf)
      else Fin (dbl_round (x / y)))"
| "ddiv (Fin x) b = Fin 0"
| "ddiv PInf (Fin y) = (if 0 \<le> y then PInf else NInf)"
| "ddiv NInf (Fin y) = (if 0 \<le> y then NInf else PInf)"
| "ddiv a b = NaN"

fun dgt :: "dbl \<Rightarrow> real \<Rightarrow> bool" where
  "dgt (Fin x) c = (c < x)"
| "dgt PInf c = True"
| "dgt a c = False"

fun dlt :: "dbl \<Rightarrow> real \<Rightarrow> bool" where
  "dlt (Fin x) c = (x < c)"
| "dlt NInf c = True"
| "dlt a c = False"

section \<open>Digit recognition\<close>

text \<open>
  A single-channel 8-bit image (\<^verbatim>\<open>cv::Mat\<close> of type \<^verbatim>\<open>CV_8UC1\<close>): the numbers of rows and
  columns and the pixels, row by row. \<open>mat_ok\<close> says that the image is not empty and that
  the pixel data have the size that the header announces; \<open>mat_empty\<close> is
  \<^verbatim>\<open>cv::Mat::empty()\<close>. \<open>image\<close> builds the image with the given rows.
\<close>

record Mat =
  rows :: nat
  cols :: nat
  data :: "8 word list list"

definition mat_ok :: "Mat \<Rightarrow> bool" where
  "mat_ok m \<longleftrightarrow>
     0 < rows m \<and> 0 < cols m \<and> length (data m) = rows m \<and> list_all (\<lambda>r. length r = cols m) (data m)"

definition mat_empty :: "Mat \<Rightarrow> bool" where
  "mat_empty m \<longleftrightarrow> rows m = 0 \<or> cols m = 0"

definition image :: "8 word list list \<Rightarrow> Mat" where
  "image rs = \<lparr> rows = length rs, cols = (case rs of [] \<Rightarrow> 0 | r # _ \<Rightarrow> length r), data = rs \<rparr>"

text \<open>\<^verbatim>\<open>cv::Rect\<close>\<close>

record Rect =
  rect_x :: int
  rect_y :: int
  rect_width :: int
  rect_height :: int

text \<open>
  What can go wrong in \<^verbatim>\<open>detect_number_roi\<close>: an assertion of OpenCV fails and throws (a
  region outside the image, an empty image or an empty target size passed to
  \<^verbatim>\<open>cv::resize\<close>), or \<^verbatim>\<open>number_samples[i]\<close> is read beyond the end of the vector.
\<close>

datatype error = Cv_assertion | Out_of_range

text \<open>
  \<^verbatim>\<open>(*src)(box)\<close>: the region of \<open>box\<close>, which must lie inside the image. For a box
  without rows or without columns OpenCV returns the empty image of 0 x 0 pixels.
\<close>

definition mat_roi :: "Mat \<Rightarrow> Rect \<Rightarrow> error + Mat" where
  "mat_roi src box =
     (if 0 \<le> rect_x box \<and> 0 \<le> rect_width box \<and> rect_x box + rect_width box \<le> int (cols src) \<and>
         0 \<le> rect_y box \<and> 0 \<le> rect_height box \<and> rect_y box + rect_height box \<le> int (rows src)
      then
        if rect_height box = 0 \<or> rect_width box = 0 then Inr \<lparr> rows = 0, cols = 0, data = [] \<rparr>
        else Inr \<lparr> rows = nat (rect_height box), cols = nat (rect_width box),
                   data = map (\<lambda>r. take (nat (rect_width box)) (drop (nat (rect_x box)) r))
                              (take (nat (rect_height box)) (drop (nat (rect_y box)) (data src))) \<rparr>
      else Inl Cv_assertion)"

text \<open>
  \<^verbatim>\<open>cv::resize(src, dst, cv::Size(dcols, drows), 0, 0, cv::INTER_NEAREST)\<close> for an image
  and a target size that are not empty, as OpenCV computes it: an image that has the
  target size already is copied; otherwise, with \<^verbatim>\<open>fx = (double)dcols / src.cols\<close> and
  \<^verbatim>\<open>ifx = 1. / fx\<close>, column \<open>x\<close> of the result is column
  \<^verbatim>\<open>min(cvFloor(x * ifx), src.cols - 1)\<close> of the source, and likewise for the rows.
\<close>

definition resize_nearest :: "Mat \<Rightarrow> nat \<Rightarrow> nat \<Rightarrow> Mat" where
  "resize_nearest src dcols drows =
     (if dcols = cols src \<and> drows = rows src then src
      else
        let ifx = dbl_round (1 / dbl_round (real dcols / real (cols src)));
            ify = dbl_round (1 / dbl_round (real drows / real (rows src)))
        in \<lparr> rows = drows, cols = dcols,
             data = map (\<lambda>y. map (\<lambda>x. data src ! nat (min \<lfloor>dbl_round (real y * ify)\<rfloor> (int (rows src) - 1))
                                               ! nat (min \<lfloor>dbl_round (real x * ifx)\<rfloor> (int (cols src) - 1)))
                                  [0..<dcols])
                        [0..<drows] \<rparr>)"

text \<open>
  The two nested pixel loops of \<^verbatim>\<open>detect_number_roi\<close>: the number of pixels where one
  image is 0xff and the other is 0.
\<close>

definition pixel_errors :: "Mat \<Rightarrow> Mat \<Rightarrow> nat" where
  "pixel_errors src_roi number_sample =
     (\<Sum>iy\<leftarrow>[0..<rows src_roi]. \<Sum>ix\<leftarrow>[0..<cols src_roi].
        if data src_roi ! iy ! ix = 0xff \<and> data number_sample ! iy ! ix = 0 then 1
        else if data src_roi ! iy ! ix = 0 \<and> data number_sample ! iy ! ix = 0xff then 1
        else 0)"

text \<open>
  The body of the loop over the ten samples, up to the comparison with the minimum:
  \<open>Inr None\<close> when the sample is skipped by the check of the height/width ratio
  (\<^verbatim>\<open>continue\<close>); an error when \<^verbatim>\<open>cv::resize\<close> throws, which it does for an empty region
  and for an empty sample; otherwise the average error \<^verbatim>\<open>avg_err\<close> of the region resized
  to the sample's size, the number of differing pixels (counted exactly in a
  \<^verbatim>\<open>double\<close>) divided by the number of pixels.
\<close>

definition sample_error :: "Mat \<Rightarrow> Mat \<Rightarrow> error + real option" where
  "sample_error src_roi number_sample =
     (let hw_ratio_roi = ddiv (Fin (real (rows src_roi))) (Fin (real (cols src_roi)));
          hw_ratio_sample = ddiv (Fin (real (rows number_sample))) (Fin (real (cols number_sample)))
      in if dgt (ddiv hw_ratio_roi hw_ratio_sample) (dbl_round 1.2) \<or>
            dlt (ddiv hw_ratio_roi hw_ratio_sample) (dbl_round 0.8)
         then Inr None
         else if mat_empty src_roi \<or> mat_empty number_sample then Inl Cv_assertion
         else
           let resized = resize_nearest src_roi (cols number_sample) (rows number_sample)
           in Inr (Some (dbl_round (real (pixel_errors resized number_sample) /
                                    real (cols resized * rows resized)))))"

text \<open>
  \<^verbatim>\<open>int detect_number_roi(cv::Mat* src, const cv::Rect& box,
      const std::vector<cv::Mat>& number_samples, const double& avg_err_thres)\<close>.
  The loop state is \<^verbatim>\<open>(min_avg_err, number_detected)\<close>, initially
  \<^verbatim>\<open>(avg_err_thres, -1)\<close>, where the \<^verbatim>\<open>double\<close> \<^verbatim>\<open>avg_err_thres\<close> is the rounding of
  the real number given. An exception thrown in the loop leaves the function.
\<close>

fun roi_loop :: "Mat \<Rightarrow> Mat list \<Rightarrow> nat list \<Rightarrow> real \<times> int \<Rightarrow> error + real \<times> int" where
  "roi_loop src_roi number_samples [] acc = Inr acc"
| "roi_loop src_roi number_samples (i # is) acc =
     (if length number_samples \<le> i then Inl Out_of_range
      else
        case sample_error src_roi (number_samples ! i) of
          Inl e \<Rightarrow> Inl e
        | Inr None \<Rightarrow> roi_loop src_roi number_samples is acc
        | Inr (Some avg_err) \<Rightarrow>
            roi_loop src_roi number_samples is (if avg_err < fst acc then (avg_err, int i) else acc))"

definition detect_number_roi :: "Mat \<Rightarrow> Rect \<Rightarrow> Mat list \<Rightarrow> real \<Rightarrow> error + int" where
  "detect_number_roi src box number_samples avg_err_thres =
     (case mat_roi src box of
        Inl e \<Rightarrow> Inl e
      | Inr src_roi \<Rightarrow>
          (case roi_loop src_roi number_samples [0..<10] (dbl_round avg_err_thres, -1) of
             Inl e \<Rightarrow> Inl e
           | Inr acc \<Rightarrow> Inr (snd acc)))"

text \<open>The rectangle of the whole image.\<close>

definition whole :: "Mat \<Rightarrow> Rect" where
  "whole m = \<lparr> rect_x = 0, rect_y = 0, rect_width = int (cols m), rect_height = int (rows m) \<rparr>"

section \<open>Numbers at fixed locations\<close>

text \<open>
  \<^verbatim>\<open>std::map<int, int> coord_num_map\<close> is the list of its entries in ascending key order;
  \<^verbatim>\<open>insert\<close> leaves the map as it is when the key is present.
\<close>

fun map_insert :: "int \<times> int \<Rightarrow> (int \<times> int) list \<Rightarrow> (int \<times> int) list" where
  "map_insert kv [] = [kv]"
| "map_insert kv (e # es) =
     (if fst kv < fst e then kv # e # es
      else if fst kv = fst e then e # es
      else e # map_insert kv es)"

text \<open>
  The size restriction of \<^verbatim>\<open>detect_number_fixed\<close> on a bounding rectangle: relative to the
  size of the image when \<^verbatim>\<open>size_restrict\<close> is all zero, otherwise
  \<^verbatim>\<open>size_restrict = (height_min, height_max, width_min, width_max)\<close>. \<open>True\<close> means that
  the rectangle is kept.
\<close>

definition size_accepted :: "Mat \<Rightarrow> Rect \<Rightarrow> real \<times> real \<times> real \<times> real \<Rightarrow> bool" where
  "size_accepted src number_box size_restrict =
     (case size_restrict of (height_min, height_max, width_min, width_max) \<Rightarrow>
        if size_restrict = (0, 0, 0, 0) then
          \<not> (real_of_int (rect_height number_box) > dbl_round (real (rows src) / dbl_round 1.3) \<or>
             real_of_int (rect_height number_box) < dbl_round (real (rows src) / dbl_round 1.6)) \<and>
          \<not> (real_of_int (rect_width number_box) > dbl_round (real (cols src) / dbl_round 4.1) \<or>
             real_of_int (rect_width number_box) < dbl_round (real (cols src) / dbl_round 9.3))
        else
          \<not> (real_of_int (rect_height number_box) > dbl_round height_max \<or>
             real_of_int (rect_height number_box) < dbl_round height_min) \<and>
          \<not> (real_of_int (rect_width number_box) > dbl_round width_max \<or>
             real_of_int (rect_width number_box) < dbl_round width_min))"

text \<open>
  The loop over the contours of \<^verbatim>\<open>detect_number_fixed\<close>. The image \<open>src\<close> is \<^verbatim>\<open>*src\<close> as
  it is when the loop runs, that is after \<^verbatim>\<open>cv::cvtColor\<close>, \<^verbatim>\<open>cv::threshold\<close> and
  \<^verbatim>\<open>cv::findContours\<close>; this image and the bounding rectangles of the contours, in the
  order of \<^verbatim>\<open>cv::findContours\<close>, are parameters.
\<close>

fun contour_loop ::
  "Mat \<Rightarrow> Mat list \<Rightarrow> real \<Rightarrow> real \<times> real \<times> real \<times> real \<Rightarrow> Rect list \<Rightarrow> (int \<times> int) list
     \<Rightarrow> error + (int \<times> int) list" where
  "contour_loop src number_samples avg_err_thres size_restrict [] coord_num_map = Inr coord_num_map"
| "contour_loop src number_samples avg_err_thres size_restrict (number_box # boxes) coord_num_map =
     (if \<not> size_accepted src number_box size_restrict
      then contour_loop src number_samples avg_err_thres size_restrict boxes coord_num_map
      else
        case detect_number_roi src number_box number_samples avg_err_thres of
          Inl e \<Rightarrow> Inl e
        | Inr number_detected \<Rightarrow>
            if number_detected \<noteq> -1
            then contour_loop src number_samples avg_err_thres size_restrict boxes
                   (map_insert (rect_x number_box, number_detected) coord_num_map)
            else contour_loop src number_samples avg_err_thres size_restrict boxes coord_num_map)"

text \<open>
  \<^verbatim>\<open>int cooldown = 0; for (it = begin; it != end; it++) { cooldown *= 10; cooldown += it->second; }\<close>
  with the 32-bit \<^verbatim>\<open>int\<close> of the program, which wraps around; the result of
  \<^verbatim>\<open>detect_number_fixed\<close> is its signed value.
\<close>

definition compose_digits :: "(int \<times> int) list \<Rightarrow> 32 word" where
  "compose_digits coord_num_map =
     fold (\<lambda>e cooldown. cooldown * 10 + word_of_int (snd e)) coord_num_map 0"

definition detect_number_fixed ::
  "Mat \<Rightarrow> Rect list \<Rightarrow> Mat list \<Rightarrow> real \<Rightarrow> real \<times> real \<times> real \<times> real \<Rightarrow> error + int" where
  "detect_number_fixed src boxes number_samples avg_err_thres size_restrict =
     (case contour_loop src number_samples avg_err_thres size_restrict boxes [] of
        Inl e \<Rightarrow> Inl e
      | Inr coord_num_map \<Rightarrow> Inr (sint (compose_digits coord_num_map)))"

text \<open>
  The recognized digits of a call, as (x-coordinate of the bounding rectangle, digit) in
  contour order: one entry for every rectangle that passes the size restriction and whose
  region matches a sample. \<open>keep_first\<close> keeps, of the entries with the same
  x-coordinate, the first one.
\<close>

fun recognized ::
  "Mat \<Rightarrow> Mat list \<Rightarrow> real \<Rightarrow> real \<times> real \<times> real \<times> real \<Rightarrow> Rect list \<Rightarrow> (int \<times> int) list" where
  "recognized src number_samples avg_err_thres size_restrict [] = []"
| "recognized src number_samples avg_err_thres size_restrict (number_box # boxes) =
     (if size_accepted src number_box size_restrict then
        (case detect_number_roi src number_box number_samples avg_err_thres of
           Inr number_detected \<Rightarrow>
             if number_detected \<noteq> -1 then [(rect_x number_box, number_detected)] else []
         | Inl e \<Rightarrow> [])
      else [])
     @ recognized src number_samples avg_err_thres size_restrict boxes"

fun keep_first :: "(int \<times> int) list \<Rightarrow> (int \<times> int) list" where
  "keep_first [] = []"
| "keep_first (e # es) = e # keep_first (filter (\<lambda>q. fst q \<noteq> fst e) es)"

text \<open>The number with the decimal digits \<open>ds\<close>, most significant digit first.\<close>

fun decimal :: "int list \<Rightarrow> int" where
  "decimal [] = 0"
| "decimal (d # ds) = d * 10 ^ length ds + decimal ds"

section \<open>Scenarios for the digit recognition\<close>

text \<open>
  A bounding rectangle as \<^verbatim>\<open>cv::boundingRect\<close> returns it for a contour of the image: it
  lies inside the image and is at least one pixel wide and high.
\<close>

definition box_inside :: "Mat \<Rightarrow> Rect \<Rightarrow> bool" where
  "box_inside src box \<longleftrightarrow>
     0 \<le> rect_x box \<and> 0 < rect_width box \<and> rect_x box + rect_width box \<le> int (cols src) \<and>
     0 \<le> rect_y box \<and> 0 < rect_height box \<and> rect_y box + rect_height box \<le> int (rows src)"

text \<open>
  Two sets of ten samples, pairwise different. In \<open>white_square_samples\<close> sample 0 is
  one white pixel and sample 1 a white square of 2 x 2 pixels. In \<open>binary_samples\<close> all
  samples are 2 x 2 images; sample 0 is white on its main diagonal, sample 3 is white
  except for its upper right pixel, sample 8 is white.
\<close>

definition white_square_samples :: "Mat list" where
  "white_square_samples = map image
     [[[0xff]], [[0xff, 0xff], [0xff, 0xff]], [[0, 0], [0xff, 0xff]], [[0xff, 0], [0xff, 0xff]],
      [[0, 0xff], [0, 0]], [[0, 0xff], [0, 0xff]], [[0, 0xff], [0xff, 0]], [[0, 0xff], [0xff, 0xff]],
      [[0xff, 0xff], [0, 0xff]], [[0xff, 0], [0, 0]]]"

definition binary_samples :: "Mat list" where
  "binary_samples = map image
     [[[0xff, 0], [0, 0xff]], [[0, 0], [0xff, 0]], [[0, 0], [0xff, 0xff]], [[0xff, 0], [0xff, 0xff]],
      [[0, 0xff], [0, 0]], [[0, 0xff], [0, 0xff]], [[0, 0xff], [0xff, 0]], [[0, 0xff], [0xff, 0xff]],
      [[0xff, 0xff], [0xff, 0xff]], [[0xff, 0], [0, 0]]]"

text \<open>
  Images with white components that are sample 3 or sample 8 of \<open>binary_samples\<close>: in
  \<open>stacked_src\<close> sample 3 above sample 8, both with x = 0; in \<open>side_src\<close> sample 8 at
  x = 0 and sample 3 at x = 3, the latter first in contour order; in \<open>relative_src\<close>, an
  image of 3 x 9 pixels, sample 8 at x = 0, sample 3 at x = 4 and a single white pixel at
  x = 8, the pixel first and sample 8 last in contour order; \<open>zero_src\<close> is sample 0.
\<close>

definition stacked_src :: Mat where
  "stacked_src = image [[0xff, 0], [0xff, 0xff], [0, 0], [0xff, 0xff], [0xff, 0xff]]"

definition stacked_boxes :: "Rect list" where
  "stacked_boxes =
     [\<lparr> rect_x = 0, rect_y = 0, rect_width = 2, rect_height = 2 \<rparr>,
      \<lparr> rect_x = 0, rect_y = 3, rect_width = 2, rect_height = 2 \<rparr>]"

definition side_src :: Mat where
  "side_src = image [[0xff, 0xff, 0, 0xff, 0], [0xff, 0xff, 0, 0xff, 0xff]]"

definition side_boxes :: "Rect list" where
  "side_boxes =
     [\<lparr> rect_x = 3, rect_y = 0, rect_width = 2, rect_height = 2 \<rparr>,
      \<lparr> rect_x = 0, rect_y = 0, rect_width = 2, rect_height = 2 \<rparr>]"

definition relative_src :: Mat where
  "relative_src = image
     [[0xff, 0xff, 0, 0, 0xff, 0, 0, 0, 0],
      [0xff, 0xff, 0, 0, 0xff, 0xff, 0, 0, 0],
      [0, 0, 0, 0, 0, 0, 0, 0, 0xff]]"

definition zero_src :: Mat where
  "zero_src = image [[0xff, 0], [0, 0xff]]"

definition zero_boxes :: "Rect list" where
  "zero_boxes = [\<lparr> rect_x = 0, rect_y = 0, rect_width = 2, rect_height = 2 \<rparr>]"

definition relative_boxes :: "Rect list" where
  "relative_boxes =
     [\<lparr> rect_x = 8, rect_y = 2, rect_width = 1, rect_height = 1 \<rparr>,
      \<lparr> rect_x = 4, rect_y = 0, rect_width = 2, rect_height = 2 \<rparr>,
      \<lparr> rect_x = 0, rect_y = 0, rect_width = 2, rect_height = 2 \<rparr>]"

section \<open>Properties of the tracking state\<close>

lemma nearest_fold_range:
  "\<forall>j \<in> set js. j < n \<Longrightarrow> k = -1 \<or> (0 \<le> k \<and> nat k < n) \<Longrightarrow>
   snd (fold (nearest_step pos hs) js (a, k)) = -1 \<or>
   (0 \<le> snd (fold (nearest_step pos hs) js (a, k)) \<and> nat (snd (fold (nearest_step pos hs) js (a, k))) < n)"
proof (induction js arbitrary: a k)
  case Nil
  then show ?case by simp
next
  case (Cons j js)
  obtain a' k' where st: "nearest_step pos hs j (a, k) = (a', k')"
    by (cases "nearest_step pos hs j (a, k)")
  with Cons.prems have "k' = -1 \<or> (0 \<le> k' \<and> nat k' < n)"
    by (auto simp: nearest_step_def Let_def split: if_splits)
  with Cons.IH [of k' a'] Cons.prems(1) st show ?case by simp
qed

lemma nearest_hero_range:
  "nearest_hero pos hs = -1 \<or> (0 \<le> nearest_hero pos hs \<and> nat (nearest_hero pos hs) < length hs)"
  unfolding nearest_hero_def by (rule nearest_fold_range) auto

lemma new_hero_inv:
  assumes "tracker_inv st"
  shows "tracker_inv (snd (new_hero lvl pos hsl ts st))"
  using assms
  by (auto simp: tracker_inv_def new_hero_def Let_def sorted_wrt_append)

lemma new_hero_created:
  "map hero_id (drop (length (heroes_list st)) (heroes_list (snd (new_hero lvl pos hsl ts st)))) = [hero_id_next st]
   \<and> hero_id_next (snd (new_hero lvl pos hsl ts st)) = hero_id_next st + 1"
  by (simp add: new_hero_def Let_def)

lemma map_hero_id_update:
  "hero_id h = hero_id (hs ! k) \<Longrightarrow> map hero_id (hs[k := h]) = map hero_id hs"
  by (metis list_update_id map_update)

lemma merge_inv:
  assumes "tracker_inv st" "k < length (heroes_list st)" "hero_id h = hero_id (heroes_list st ! k)"
  shows "tracker_inv (st\<lparr> heroes_list := (heroes_list st)[k := h], last_updated := (last_updated st)[k := ts],
               appearances := (appearances st)[k := a] \<rparr>)"
proof -
  have m: "map hero_id ((heroes_list st)[k := h]) = map hero_id (heroes_list st)"
    using assms(3) by (rule map_hero_id_update)
  have "\<forall>h' \<in> set ((heroes_list st)[k := h]). 0 \<le> hero_id h' \<and> hero_id h' < hero_id_next st"
  proof
    fix h' assume "h' \<in> set ((heroes_list st)[k := h])"
    then have "hero_id h' \<in> set (map hero_id ((heroes_list st)[k := h]))" by simp
    then have "hero_id h' \<in> hero_id ` set (heroes_list st)" by (simp only: m set_map)
    with assms(1) show "0 \<le> hero_id h' \<and> hero_id h' < hero_id_next st"
      by (auto simp: tracker_inv_def)
  qed
  with assms(1) m show ?thesis by (simp add: tracker_inv_def)
qed

lemma assign_hero_cases:
  "snd (assign_hero lvl pos hsl ts st) = snd (new_hero lvl pos hsl ts st) \<or>
   (\<exists>k h a. k < length (heroes_list st) \<and> hero_id h = hero_id (heroes_list st ! k) \<and>
      snd (assign_hero lvl pos hsl ts st) =
        st\<lparr> heroes_list := (heroes_list st)[k := h], last_updated := (last_updated st)[k := ts],
            appearances := (appearances st)[k := a] \<rparr>)"
proof (cases "snd (assign_hero lvl pos hsl ts st) = snd (new_hero lvl pos hsl ts st)")
  case True
  then show ?thesis by (rule disjI1)
next
  case False
  let ?k = "nat (nearest_hero pos (heroes_list st))"
  from False have ne: "nearest_hero pos (heroes_list st) \<noteq> -1"
    by (auto simp: assign_hero_def Let_def split: if_splits)
  with nearest_hero_range [of pos "heroes_list st"] have k: "?k < length (heroes_list st)"
    by blast
  from False consider
      (same) "snd (assign_hero lvl pos hsl ts st) =
         st\<lparr> heroes_list := (heroes_list st)[?k := (heroes_list st ! ?k)\<lparr> position := pos \<rparr>],
             last_updated := (last_updated st)[?k := ts],
             appearances := (appearances st)[?k := appearances st ! ?k + 1] \<rparr>"
    | (up) "snd (assign_hero lvl pos hsl ts st) =
         st\<lparr> heroes_list := (heroes_list st)[?k := (heroes_list st ! ?k)\<lparr> position := pos, level := lvl \<rparr>],
             last_updated := (last_updated st)[?k := ts],
             appearances := (appearances st)[?k := appearances st ! ?k + 1] \<rparr>"
    by (auto simp: assign_hero_def Let_def split: if_splits)
  then show ?thesis
  proof cases
    case same
    have "hero_id ((heroes_list st ! ?k)\<lparr> position := pos \<rparr>) = hero_id (heroes_list st ! ?k)"
      by simp
    with k same show ?thesis by blast
  next
    case up
    have "hero_id ((heroes_list st ! ?k)\<lparr> position := pos, level := lvl \<rparr>) = hero_id (heroes_list st ! ?k)"
      by simp
    with k up show ?thesis by blast
  qed
qed

lemma assign_hero_inv:
  assumes "tracker_inv st"
  shows "tracker_inv (snd (assign_hero lvl pos hsl ts st))"
  using assign_hero_cases [of lvl pos hsl ts st]
proof (elim disjE exE conjE)
  assume "snd (assign_hero lvl pos hsl ts st) = snd (new_hero lvl pos hsl ts st)"
  then show ?thesis using new_hero_inv [OF assms] by simp
next
  fix k h a
  assume "k < length (heroes_list st)" "hero_id h = hero_id (heroes_list st ! k)"
    and e: "snd (assign_hero lvl pos hsl ts st) =
      st\<lparr> heroes_list := (heroes_list st)[k := h], last_updated := (last_updated st)[k := ts],
          appearances := (appearances st)[k := a] \<rparr>"
  then show ?thesis unfolding e by (intro merge_inv [OF assms])
qed

lemma assign_hero_created:
  assumes "tracker_inv st"
  shows "map hero_id (drop (length (heroes_list st)) (heroes_list (snd (assign_hero lvl pos hsl ts st))))
           = [hero_id_next st] \<and> hero_id_next (snd (assign_hero lvl pos hsl ts st)) = hero_id_next st + 1
         \<or> drop (length (heroes_list st)) (heroes_list (snd (assign_hero lvl pos hsl ts st))) = [] \<and>
           hero_id_next (snd (assign_hero lvl pos hsl ts st)) = hero_id_next st"
  using assign_hero_cases [of lvl pos hsl ts st]
proof (elim disjE exE conjE)
  assume "snd (assign_hero lvl pos hsl ts st) = snd (new_hero lvl pos hsl ts st)"
  then show ?thesis using new_hero_created [of st lvl pos hsl ts] by simp
next
  fix k h a
  assume e: "snd (assign_hero lvl pos hsl ts st) =
      st\<lparr> heroes_list := (heroes_list st)[k := h], last_updated := (last_updated st)[k := ts],
          appearances := (appearances st)[k := a] \<rparr>"
  show ?thesis unfolding e by simp
qed

lemma sorted_wrt_erase: "sorted_wrt P xs \<Longrightarrow> sorted_wrt P (erase xs i)"
  unfolding erase_def
  by (metis append_take_drop_id drop_Suc sorted_wrt_append sorted_wrt_drop sorted_wrt_take
      in_set_dropD in_set_takeD tl_drop list.set_sel(2) drop_Nil list.sel(2) sorted_wrt.simps(1) drop_all not_less)

lemma set_erase: "set (erase xs i) \<subseteq> set xs"
  unfolding erase_def by (auto dest: in_set_takeD in_set_dropD)

lemma length_erase: "i < length xs \<Longrightarrow> length (erase xs i) = length xs - 1"
  unfolding erase_def by auto

lemma map_erase: "map f (erase xs i) = erase (map f xs) i"
  unfolding erase_def by (simp add: take_map drop_map)

lemma delete_loop_inv:
  "tracker_inv st \<Longrightarrow> tracker_inv (delete_loop ts inactive_time num_app i st)"
proof (induction ts inactive_time num_app i st rule: delete_loop.induct)
  case (1 ts inactive_time num_app i st)
  show ?case
  proof (cases "i < length (heroes_list st)")
    case False
    with "1.prems" show ?thesis
      by (simp add: delete_loop.simps [of ts inactive_time num_app i st])
  next
    case True
    let ?st' = "st\<lparr> heroes_list := erase (heroes_list st) i,
                    last_updated := erase (last_updated st) i,
                    appearances := erase (appearances st) i \<rparr>"
    have "tracker_inv ?st'"
      using "1.prems" True set_erase [of "heroes_list st" i]
      by (auto simp: tracker_inv_def length_erase map_erase sorted_wrt_erase)
    with "1.IH" "1.prems" True show ?thesis
      by (simp add: delete_loop.simps [of ts inactive_time num_app i st])
  qed
qed

lemma delete_loop_hero_id_next:
  "hero_id_next (delete_loop ts inactive_time num_app i st) = hero_id_next st"
proof (induction ts inactive_time num_app i st rule: delete_loop.induct)
  case (1 ts inactive_time num_app i st)
  show ?case
  proof (cases "i < length (heroes_list st)")
    case False
    then show ?thesis by (simp add: delete_loop.simps [of ts inactive_time num_app i st])
  next
    case True
    with "1.IH" show ?thesis
      by (simp add: delete_loop.simps [of ts inactive_time num_app i st])
  qed
qed

lemma sqrt_int_less: "sqrt (real_of_int a) < sqrt (real_of_int m) \<longleftrightarrow> a < m"
  by (simp only: real_sqrt_less_iff of_int_less_iff)

lemma nearest_fold_sq:
  "fold (nearest_step pos hs) js (sqrt (real_of_int m), k) =
     (case fold (nearest_step_sq pos hs) js (m, k) of (a, b) \<Rightarrow> (sqrt (real_of_int a), b))"
proof (induction js arbitrary: m k)
  case Nil
  then show ?case by simp
next
  case (Cons j js)
  have "nearest_step pos hs j (sqrt (real_of_int m), k) =
        (case nearest_step_sq pos hs j (m, k) of (a, b) \<Rightarrow> (sqrt (real_of_int a), b))"
    by (simp add: nearest_step_def nearest_step_sq_def hero_dist_def Let_def sqrt_int_less
          del: of_int_add of_int_power)
  then show ?case
    using Cons.IH by (cases "nearest_step_sq pos hs j (m, k)") simp
qed

lemma nearest_hero_sq: "nearest_hero pos hs = nearest_hero_sq_impl pos hs"
proof -
  have "(20::real) = sqrt (real_of_int 400)"
    by (simp add: real_sqrt_unique)
  then show ?thesis
    unfolding nearest_hero_def nearest_hero_sq_impl_def
    using nearest_fold_sq [of pos hs "[0..<length hs]" 400 "-1"]
    by (simp add: split_beta)
qed

lemmas tracker_eval = track_hero_def pairing_step_def pair_partner_def same_icon_def hero_level_def
  level_anchor_def assign_hero_def new_hero_def GameVideoAnalyzer_def nearest_hero_sq
  nearest_hero_sq_impl_def nearest_step_sq_def sq_dist_def Let_def upt_rec


lemma apply_op_run_inv:
  assumes "tracker_inv st" "map int [0..<length created] = created" "hero_id_next st = int (length created)"
    and "apply_op op (st, created) = (st', created')"
  shows "tracker_inv st' \<and> map int [0..<length created'] = created' \<and> hero_id_next st' = int (length created')"
proof (cases op)
  case (Assign lvl pos ts)
  let ?s = "snd (assign_hero lvl pos [] ts st)"
  from assms(4) Assign have st': "st' = ?s"
    and c': "created' = created @ map hero_id (drop (length (heroes_list st)) (heroes_list ?s))"
    by (auto simp: Let_def)
  have inv: "tracker_inv st'" unfolding st' using assms(1) by (rule assign_hero_inv)
  from assign_hero_created [OF assms(1), of lvl pos "[]" ts]
  show ?thesis
  proof (elim disjE conjE)
    assume a1: "map hero_id (drop (length (heroes_list st)) (heroes_list ?s)) = [hero_id_next st]"
      and a2: "hero_id_next ?s = hero_id_next st + 1"
    have c: "created' = created @ [int (length created)]"
      unfolding c' a1 assms(3) by (rule refl)
    have m: "map int [0..<length created'] = created'"
      unfolding c using assms(2) by simp
    have h: "hero_id_next st' = int (length created')"
      unfolding c st' a2 assms(3) by simp
    show ?thesis by (rule conjI [OF inv conjI [OF m h]])
  next
    assume a1: "drop (length (heroes_list st)) (heroes_list ?s) = []"
      and a2: "hero_id_next ?s = hero_id_next st"
    have c: "created' = created" unfolding c' a1 by simp
    have m: "map int [0..<length created'] = created'"
      unfolding c by (rule assms(2))
    have h: "hero_id_next st' = int (length created')"
      unfolding c st' a2 by (rule assms(3))
    show ?thesis by (rule conjI [OF inv conjI [OF m h]])
  qed
next
  case Frame_end
  with assms(4) have e: "st' = st\<lparr> is_heroes_list_initialized := True \<rparr>" and c: "created' = created"
    by auto
  have inv: "tracker_inv st'" unfolding e using assms(1) by (simp add: tracker_inv_def)
  have m: "map int [0..<length created'] = created'" unfolding c by (rule assms(2))
  have h: "hero_id_next st' = int (length created')" unfolding e c using assms(3) by simp
  show ?thesis by (rule conjI [OF inv conjI [OF m h]])
next
  case (Delete_inactive ts inactive_time num_app)
  with assms(4) have e: "st' = delete_loop ts inactive_time num_app 0 st" and c: "created' = created"
    by (auto simp: delete_inactive_heroes_def)
  have inv: "tracker_inv st'" unfolding e using assms(1) by (rule delete_loop_inv)
  have m: "map int [0..<length created'] = created'" unfolding c by (rule assms(2))
  have h: "hero_id_next st' = int (length created')"
    unfolding e c delete_loop_hero_id_next by (rule assms(3))
  show ?thesis by (rule conjI [OF inv conjI [OF m h]])
qed

lemma fold_apply_op_inv:
  "tracker_inv st \<Longrightarrow> map int [0..<length created] = created \<Longrightarrow> hero_id_next st = int (length created) \<Longrightarrow>
   fold apply_op ops (st, created) = (st', created') \<Longrightarrow>
   tracker_inv st' \<and> map int [0..<length created'] = created' \<and> hero_id_next st' = int (length created')"
proof (induction ops arbitrary: st created)
  case Nil
  then show ?case by simp
next
  case (Cons op ops)
  obtain st1 c1 where s1: "apply_op op (st, created) = (st1, c1)"
    by (cases "apply_op op (st, created)")
  have f: "fold apply_op ops (st1, c1) = (st', created')"
    using Cons.prems(4) s1 by simp
  note step = apply_op_run_inv [OF Cons.prems(1-3) s1]
  show ?case
    by (rule Cons.IH [OF conjunct1 [OF step] conjunct1 [OF conjunct2 [OF step]]
          conjunct2 [OF conjunct2 [OF step]] f])
qed

lemma init_inv: "tracker_inv GameVideoAnalyzer"
  by (simp add: tracker_inv_def GameVideoAnalyzer_def)

text \<open>
  Claim C8. Across every sequence of \<^verbatim>\<open>assign_hero\<close> calls, frame ends and
  \<^verbatim>\<open>delete_inactive_heroes\<close> calls on one freshly constructed object: the identities
  given to the entries created so far are \<open>0, 1, 2, \<dots>\<close> in the order of creation (each
  is assigned once, the sequence increases strictly, and an identity is not given again
  after its entry was erased, since the next identity is the number of entries ever
  created); the identities present in \<^verbatim>\<open>heroes_list_\<close> are pairwise distinct, increase
  with the index, and are among the created ones.
\<close>

theorem C8_identities_unique_increasing:
  "(case run_ops ops of (st, created) \<Rightarrow>
      created = map int [0..<length created] \<and>
      hero_id_next st = int (length created) \<and>
      sorted_wrt (<) (map hero_id (heroes_list st)) \<and>
      distinct (map hero_id (heroes_list st)) \<and>
      set (map hero_id (heroes_list st)) \<subseteq> set created)"
proof -
  obtain st created where r: "run_ops ops = (st, created)" by (cases "run_ops ops")
  then have f: "fold apply_op ops (GameVideoAnalyzer, []) = (st, created)" by (simp add: run_ops_def)
  have i: "tracker_inv st \<and> map int [0..<length created] = created \<and> hero_id_next st = int (length created)"
    by (rule fold_apply_op_inv [OF init_inv _ _ f]) (simp_all add: GameVideoAnalyzer_def)
  then have srt: "sorted_wrt (<) (map hero_id (heroes_list st))" by (simp add: tracker_inv_def)
  then have dst: "distinct (map hero_id (heroes_list st))"
    by (simp add: strict_sorted_iff)
  have "set (map hero_id (heroes_list st)) \<subseteq> set (map int [0..<length created])"
  proof
    fix a assume "a \<in> set (map hero_id (heroes_list st))"
    then obtain h where "h \<in> set (heroes_list st)" "a = hero_id h" by auto
    with i have "0 \<le> a" "a < int (length created)" by (auto simp: tracker_inv_def)
    then have "a = int (nat a)" "nat a \<in> set [0..<length created]" by auto
    then show "a \<in> set (map int [0..<length created])" by (metis image_eqI set_map)
  qed
  with i have sub: "set (map hero_id (heroes_list st)) \<subseteq> set created" by simp
  show ?thesis unfolding r prod.case
  proof (intro conjI)
    show "created = map int [0..<length created]" using i by simp
    show "hero_id_next st = int (length created)" using i by simp
  qed (rule srt dst sub)+
qed

section \<open>The pairing loop\<close>

lemmas reading_eval = frame_readings_def loop_reading_def loop_flags_def pair_partner_def
  same_icon_def hero_level_def level_anchor_def upt_rec

lemma find_upt_first:
  assumes "i < j" "j < n" "P j" "\<forall>k. i < k \<and> k < j \<longrightarrow> \<not> P k"
  shows "List.find P [Suc i..<n] = Some j"
proof -
  have "\<exists>m<length [Suc i..<n]. P ([Suc i..<n] ! m) \<and> j = [Suc i..<n] ! m \<and>
          (\<forall>l<m. \<not> P ([Suc i..<n] ! l))"
  proof (intro exI [of _ "j - Suc i"] conjI allI impI)
    show "j - Suc i < length [Suc i..<n]" using assms(1,2) by simp
    show "P ([Suc i..<n] ! (j - Suc i))" using assms(1-3) by simp
    show "j = [Suc i..<n] ! (j - Suc i)" using assms(1,2) by simp
    fix l assume l: "l < j - Suc i"
    then have "[Suc i..<n] ! l = Suc i + l" using assms(2) by simp
    moreover have "i < Suc i + l \<and> Suc i + l < j" using l by simp
    ultimately show "\<not> P ([Suc i..<n] ! l)" using assms(4) by simp
  qed
  then show ?thesis by (simp only: find_Some_iff)
qed

text \<open>
  Claim C1, as the code has it. In any frame, let reading \<open>i\<close> be not yet consumed and let
  \<open>j\<close> be the first later index whose corner is less than 3 pixels away vertically and
  strictly between 8 and 15 pixels away horizontally and with which the composed level is
  at most 15, where the reading with the smaller x-coordinate supplies the tens digit and
  the reading with the larger x-coordinate the units digit. Then the pairing loop at
  index \<open>i\<close> passes this level to \<^verbatim>\<open>assign_hero\<close> once, with the corner of the right-hand
  reading as position, and marks both readings as consumed.
\<close>

theorem C1_left_digit_is_tens:
  assumes "is_single_digit ! i" "i < j" "j < length rect_num_vec"
    and "rect_num_vec ! i = (p1, num1)" "rect_num_vec ! j = (p2, num2)"
    and "\<bar>py p1 - py p2\<bar> < 3" "8 < \<bar>px p1 - px p2\<bar>" "\<bar>px p1 - px p2\<bar> < 15"
    and "(if px p1 < px p2 then 10 * num1 + num2 else 10 * num2 + num1) \<le> 15"
    and "\<forall>k. i < k \<and> k < j \<longrightarrow>
           \<not> (\<bar>py p1 - py (fst (rect_num_vec ! k))\<bar> < 3 \<and>
              8 < \<bar>px p1 - px (fst (rect_num_vec ! k))\<bar> \<and>
              \<bar>px p1 - px (fst (rect_num_vec ! k))\<bar> < 15 \<and>
              (if px p1 < px (fst (rect_num_vec ! k)) then 10 * num1 + snd (rect_num_vec ! k)
               else 10 * snd (rect_num_vec ! k) + num1) \<le> 15)"
  shows "pairing_step rect_num_vec ts i (is_single_digit, hero_status_list, st) =
           (case assign_hero (if px p1 < px p2 then 10 * num1 + num2 else 10 * num2 + num1)
                             (if px p1 < px p2 then p2 else p1) hero_status_list ts st of
              (hsl, st') \<Rightarrow> (is_single_digit[i := False, j := False], hsl, st'))"
proof -
  let ?P = "\<lambda>j. same_icon (fst (rect_num_vec ! i)) (fst (rect_num_vec ! j)) \<and>
                 hero_level (fst (rect_num_vec ! i)) (snd (rect_num_vec ! i))
                            (fst (rect_num_vec ! j)) (snd (rect_num_vec ! j)) \<le> 15"
  have lvl: "8 < \<bar>px p1 - px q\<bar> \<Longrightarrow>
             hero_level p1 num1 q n = (if px p1 < px q then 10 * num1 + n else 10 * n + num1)" for q n
    by (auto simp: hero_level_def)
  have Pj: "?P j"
    using assms(4-9) by (simp add: same_icon_def lvl)
  have first: "\<forall>k. i < k \<and> k < j \<longrightarrow> \<not> ?P k"
  proof (intro allI impI notI)
    fix k assume k: "i < k \<and> k < j" and P: "?P k"
    from P assms(4) have s: "\<bar>py p1 - py (fst (rect_num_vec ! k))\<bar> < 3"
      "8 < \<bar>px p1 - px (fst (rect_num_vec ! k))\<bar>" "\<bar>px p1 - px (fst (rect_num_vec ! k))\<bar> < 15"
      and h: "hero_level p1 num1 (fst (rect_num_vec ! k)) (snd (rect_num_vec ! k)) \<le> 15"
      by (simp_all add: same_icon_def)
    from h have "(if px p1 < px (fst (rect_num_vec ! k)) then 10 * num1 + snd (rect_num_vec ! k)
               else 10 * snd (rect_num_vec ! k) + num1) \<le> 15"
      by (simp only: lvl [OF s(2)])
    with assms(10) k s show False by blast
  qed
  have pp: "pair_partner rect_num_vec i = Some j"
    unfolding pair_partner_def using assms(2,3) Pj first by (rule find_upt_first)
  have hl: "hero_level p1 num1 p2 num2 = (if px p1 < px p2 then 10 * num1 + num2 else 10 * num2 + num1)"
    using assms(7) by (rule lvl)
  have la: "level_anchor p1 p2 = (if px p1 < px p2 then p2 else p1)"
    using assms(7) by (auto simp: level_anchor_def)
  have "pairing_step rect_num_vec ts i (is_single_digit, hero_status_list, st) =
           (case assign_hero (hero_level p1 num1 p2 num2) (level_anchor p1 p2) hero_status_list ts st of
              (hsl, st') \<Rightarrow> (is_single_digit[i := False, j := False], hsl, st'))"
    using assms(1,4,5) pp by (simp add: pairing_step_def Let_def)
  then show ?thesis unfolding hl la .
qed

theorem C1_left_digit_is_tens_witness:
  "pairing_step [(\<lparr>px = 20, py = 5\<rparr>, 3), (\<lparr>px = 50, py = 40\<rparr>, 7), (\<lparr>px = 10, py = 5\<rparr>, 1)] 0 0
     ([True, True, True], [], GameVideoAnalyzer) =
   ([False, True, False], [\<lparr>hero_id = 0, position = \<lparr>px = 20, py = 5\<rparr>, level = 13\<rparr>],
    GameVideoAnalyzer\<lparr> hero_id_next := 1, last_updated := [0], appearances := [1],
      heroes_list := [\<lparr>hero_id = 0, position = \<lparr>px = 20, py = 5\<rparr>, level = 13\<rparr>] \<rparr>) \<and>
   pairing_step [(\<lparr>px = 10, py = 5\<rparr>, 1), (\<lparr>px = 20, py = 5\<rparr>, 3)] 0 0
     ([True, True], [], GameVideoAnalyzer) =
   ([False, False], [\<lparr>hero_id = 0, position = \<lparr>px = 20, py = 5\<rparr>, level = 13\<rparr>],
    GameVideoAnalyzer\<lparr> hero_id_next := 1, last_updated := [0], appearances := [1],
      heroes_list := [\<lparr>hero_id = 0, position = \<lparr>px = 20, py = 5\<rparr>, level = 13\<rparr>] \<rparr>)"
proof -
  have b: "\<forall>k. (0::nat) < k \<and> k < 2 \<longrightarrow>
           \<not> (\<bar>py \<lparr>px = 20, py = 5\<rparr> - py (fst ([(\<lparr>px = 20, py = 5\<rparr>, 3), (\<lparr>px = 50, py = 40\<rparr>, 7), (\<lparr>px = 10, py = 5\<rparr>, 1::int)] ! k))\<bar> < 3 \<and>
              8 < \<bar>px \<lparr>px = 20, py = 5\<rparr> - px (fst ([(\<lparr>px = 20, py = 5\<rparr>, 3), (\<lparr>px = 50, py = 40\<rparr>, 7), (\<lparr>px = 10, py = 5\<rparr>, 1::int)] ! k))\<bar> \<and>
              \<bar>px \<lparr>px = 20, py = 5\<rparr> - px (fst ([(\<lparr>px = 20, py = 5\<rparr>, 3), (\<lparr>px = 50, py = 40\<rparr>, 7), (\<lparr>px = 10, py = 5\<rparr>, 1::int)] ! k))\<bar> < 15 \<and>
              (if px \<lparr>px = 20, py = 5\<rparr> < px (fst ([(\<lparr>px = 20, py = 5\<rparr>, 3), (\<lparr>px = 50, py = 40\<rparr>, 7), (\<lparr>px = 10, py = 5\<rparr>, 1::int)] ! k)) then 10 * 3 + snd ([(\<lparr>px = 20, py = 5\<rparr>, 3), (\<lparr>px = 50, py = 40\<rparr>, 7), (\<lparr>px = 10, py = 5\<rparr>, 1)] ! k)
               else 10 * snd ([(\<lparr>px = 20, py = 5\<rparr>, 3), (\<lparr>px = 50, py = 40\<rparr>, 7), (\<lparr>px = 10, py = 5\<rparr>, 1)] ! k) + 3) \<le> 15)"
  proof (intro allI impI)
    fix k :: nat assume "0 < k \<and> k < 2"
    then have "k = 1" by simp
    then show "\<not> (\<bar>py \<lparr>px = 20, py = 5\<rparr> - py (fst ([(\<lparr>px = 20, py = 5\<rparr>, 3), (\<lparr>px = 50, py = 40\<rparr>, 7), (\<lparr>px = 10, py = 5\<rparr>, 1::int)] ! k))\<bar> < 3 \<and>
              8 < \<bar>px \<lparr>px = 20, py = 5\<rparr> - px (fst ([(\<lparr>px = 20, py = 5\<rparr>, 3), (\<lparr>px = 50, py = 40\<rparr>, 7), (\<lparr>px = 10, py = 5\<rparr>, 1::int)] ! k))\<bar> \<and>
              \<bar>px \<lparr>px = 20, py = 5\<rparr> - px (fst ([(\<lparr>px = 20, py = 5\<rparr>, 3), (\<lparr>px = 50, py = 40\<rparr>, 7), (\<lparr>px = 10, py = 5\<rparr>, 1::int)] ! k))\<bar> < 15 \<and>
              (if px \<lparr>px = 20, py = 5\<rparr> < px (fst ([(\<lparr>px = 20, py = 5\<rparr>, 3), (\<lparr>px = 50, py = 40\<rparr>, 7), (\<lparr>px = 10, py = 5\<rparr>, 1::int)] ! k)) then 10 * 3 + snd ([(\<lparr>px = 20, py = 5\<rparr>, 3), (\<lparr>px = 50, py = 40\<rparr>, 7), (\<lparr>px = 10, py = 5\<rparr>, 1)] ! k)
               else 10 * snd ([(\<lparr>px = 20, py = 5\<rparr>, 3), (\<lparr>px = 50, py = 40\<rparr>, 7), (\<lparr>px = 10, py = 5\<rparr>, 1)] ! k) + 3) \<le> 15)"
      by simp
  qed
  from C1_left_digit_is_tens [of "[True, True, True]" 0 2
         "[(\<lparr>px = 20, py = 5\<rparr>, 3), (\<lparr>px = 50, py = 40\<rparr>, 7), (\<lparr>px = 10, py = 5\<rparr>, 1)]"
         "\<lparr>px = 20, py = 5\<rparr>" 3 "\<lparr>px = 10, py = 5\<rparr>" 1 0 "[]" GameVideoAnalyzer, OF _ _ _ _ _ _ _ _ _ b]
       C1_left_digit_is_tens [of "[True, True]" 0 1 "[(\<lparr>px = 10, py = 5\<rparr>, 1), (\<lparr>px = 20, py = 5\<rparr>, 3)]"
         "\<lparr>px = 10, py = 5\<rparr>" 1 "\<lparr>px = 20, py = 5\<rparr>" 3 0 "[]" GameVideoAnalyzer]
  show ?thesis
    by (simp add: assign_hero_def new_hero_def GameVideoAnalyzer_def Let_def)
qed

text \<open>
  The readings (x=10, y=5, digit 3) and (x=20, y=5, digit 1) satisfy the distance
  conditions, but compose to 31, not 13, in either order; 31 exceeds 15, so the pair is
  rejected and \<^verbatim>\<open>track_hero\<close> reports two single-digit heroes of levels 3 and 1.
\<close>

theorem C1_counterexample:
  "same_icon \<lparr>px = 10, py = 5\<rparr> \<lparr>px = 20, py = 5\<rparr> \<and>
   hero_level \<lparr>px = 10, py = 5\<rparr> 3 \<lparr>px = 20, py = 5\<rparr> 1 = 31 \<and>
   hero_level \<lparr>px = 20, py = 5\<rparr> 1 \<lparr>px = 10, py = 5\<rparr> 3 = 31 \<and>
   fst (track_hero [(\<lparr>px = 10, py = 5\<rparr>, 3), (\<lparr>px = 20, py = 5\<rparr>, 1)] [] 0 GameVideoAnalyzer) =
     [\<lparr>hero_id = 0, position = \<lparr>px = 10, py = 5\<rparr>, level = 3\<rparr>,
      \<lparr>hero_id = 1, position = \<lparr>px = 20, py = 5\<rparr>, level = 1\<rparr>]"
  by (simp add: tracker_eval)

text \<open>
  A frame that consists of one such pair, in either order of the two readings: the whole
  \<^verbatim>\<open>track_hero\<close> call is one call of \<^verbatim>\<open>assign_hero\<close> with the composed level at the corner
  of the right-hand reading.
\<close>

lemma track_hero_pair:
  assumes "px pl < px pr" "same_icon pl pr" "10 * nl + nr \<le> 15"
    and "rect_num_vec = [(pl, nl), (pr, nr)] \<or> rect_num_vec = [(pr, nr), (pl, nl)]"
  shows "track_hero rect_num_vec hero_status_list ts st =
           (case assign_hero (10 * nl + nr) pr hero_status_list ts st of
              (hsl, st') \<Rightarrow> (hsl, st'\<lparr> is_heroes_list_initialized := True \<rparr>))"
proof -
  obtain h s where a: "assign_hero (10 * nl + nr) pr hero_status_list ts st = (h, s)"
    by (cases "assign_hero (10 * nl + nr) pr hero_status_list ts st")
  from assms(2) have sym: "same_icon pr pl" by (simp add: same_icon_def abs_minus_commute)
  have idx: "[0..<length rect_num_vec] = [0, Suc 0]" and rep: "replicate (length rect_num_vec) True = [True, True]"
    using assms(4) by (elim disjE; simp add: upt_rec)+
  have pp: "pair_partner rect_num_vec 0 = Some (Suc 0)"
    using assms(1-4) sym by (elim disjE; simp add: pair_partner_def hero_level_def upt_rec)
  have lv: "hero_level (fst (rect_num_vec ! 0)) (snd (rect_num_vec ! 0))
              (fst (rect_num_vec ! Suc 0)) (snd (rect_num_vec ! Suc 0)) = 10 * nl + nr"
    and an: "level_anchor (fst (rect_num_vec ! 0)) (fst (rect_num_vec ! Suc 0)) = pr"
    using assms(1,4) by (elim disjE; simp add: hero_level_def level_anchor_def)+
  have s0: "pairing_step rect_num_vec ts 0 ([True, True], hero_status_list, st) = ([False, False], h, s)"
    by (simp add: pairing_step_def pp Let_def lv an a)
  have s1: "pairing_step rect_num_vec ts (Suc 0) ([False, False], h, s) = ([False, False], h, s)"
    by (simp add: pairing_step_def)
  show ?thesis
    by (simp add: track_hero_def idx rep s0 s1 a)
qed

lemma track_hero_pair_13:
  "fst (track_hero [(\<lparr>px = 10, py = 5\<rparr>, 1), (\<lparr>px = 20, py = 5\<rparr>, 3)] [] 0 GameVideoAnalyzer) =
     [\<lparr>hero_id = 0, position = \<lparr>px = 20, py = 5\<rparr>, level = 13\<rparr>] \<and>
   fst (track_hero [(\<lparr>px = 20, py = 5\<rparr>, 3), (\<lparr>px = 10, py = 5\<rparr>, 1)] [] 0 GameVideoAnalyzer) =
     [\<lparr>hero_id = 0, position = \<lparr>px = 20, py = 5\<rparr>, level = 13\<rparr>]"
  using track_hero_pair [of "\<lparr>px = 10, py = 5\<rparr>" "\<lparr>px = 20, py = 5\<rparr>" 1 3
          "[(\<lparr>px = 10, py = 5\<rparr>, 1), (\<lparr>px = 20, py = 5\<rparr>, 3)]" "[]" 0 GameVideoAnalyzer]
        track_hero_pair [of "\<lparr>px = 10, py = 5\<rparr>" "\<lparr>px = 20, py = 5\<rparr>" 1 3
          "[(\<lparr>px = 20, py = 5\<rparr>, 3), (\<lparr>px = 10, py = 5\<rparr>, 1)]" "[]" 0 GameVideoAnalyzer]
  by (simp add: same_icon_def assign_hero_def new_hero_def GameVideoAnalyzer_def Let_def)

section \<open>The reading sequence\<close>

lemma reading_frame1_eq:
  "reading_frame1 = ([\<lparr>hero_id = 0, position = \<lparr> px = 100, py = 100 \<rparr>, level = 5\<rparr>],
     GameVideoAnalyzer\<lparr> hero_id_next := 1, is_heroes_list_initialized := True,
       last_updated := [0], appearances := [1],
       heroes_list := [\<lparr>hero_id = 0, position = \<lparr> px = 100, py = 100 \<rparr>, level = 5\<rparr>] \<rparr>)"
  by (simp add: reading_frame1_def tracker_eval)

lemma reading_frame2_eq:
  "reading_frame2 = ([\<lparr>hero_id = 0, position = \<lparr> px = 100, py = 100 \<rparr>, level = 5\<rparr>],
     GameVideoAnalyzer\<lparr> hero_id_next := 1, is_heroes_list_initialized := True,
       last_updated := [500], appearances := [2],
       heroes_list := [\<lparr>hero_id = 0, position = \<lparr> px = 100, py = 100 \<rparr>, level = 5\<rparr>] \<rparr>)"
  by (simp add: reading_frame2_def reading_frame1_eq tracker_eval)

lemma reading_frame3_eq:
  "reading_frame3 = ([\<lparr>hero_id = 0, position = \<lparr> px = 102, py = 101 \<rparr>, level = 6\<rparr>],
     GameVideoAnalyzer\<lparr> hero_id_next := 1, is_heroes_list_initialized := True,
       last_updated := [1000], appearances := [3],
       heroes_list := [\<lparr>hero_id = 0, position = \<lparr> px = 102, py = 101 \<rparr>, level = 6\<rparr>] \<rparr>)"
  by (simp add: reading_frame3_def reading_frame2_eq tracker_eval)

lemma reading_frame4_eq:
  "reading_frame4 = ([\<lparr>hero_id = 1, position = \<lparr> px = 102, py = 101 \<rparr>, level = 6\<rparr>],
     GameVideoAnalyzer\<lparr> hero_id_next := 2, is_heroes_list_initialized := True,
       last_updated := [1000, 4200], appearances := [3, 1],
       heroes_list := [\<lparr>hero_id = 0, position = \<lparr> px = 102, py = 101 \<rparr>, level = 6\<rparr>,
                       \<lparr>hero_id = 1, position = \<lparr> px = 102, py = 101 \<rparr>, level = 6\<rparr>] \<rparr>)"
  by (simp add: reading_frame4_def reading_frame3_eq tracker_eval)

text \<open>
  Claim C3. From a fresh tracker, the reading at (100,100), level 5, 0 ms creates identity
  0 with one appearance; the same reading at 500 ms merges into identity 0, which then has
  two appearances; the reading at (102,101), level 6, 1000 ms merges into identity 0 by the
  level-up branch and sets its level to 6; the same reading at 4200 ms, more than 3000 ms
  after identity 0 was last updated, creates identity 1 and leaves identity 0 as it was.
\<close>

theorem C3_reading_sequence:
  "fst reading_frame1 = [\<lparr>hero_id = 0, position = \<lparr>px = 100, py = 100\<rparr>, level = 5\<rparr>] \<and>
   heroes_list (snd reading_frame1) = [\<lparr>hero_id = 0, position = \<lparr>px = 100, py = 100\<rparr>, level = 5\<rparr>] \<and>
   appearances (snd reading_frame1) = [1] \<and>
   fst reading_frame2 = [\<lparr>hero_id = 0, position = \<lparr>px = 100, py = 100\<rparr>, level = 5\<rparr>] \<and>
   heroes_list (snd reading_frame2) = [\<lparr>hero_id = 0, position = \<lparr>px = 100, py = 100\<rparr>, level = 5\<rparr>] \<and>
   appearances (snd reading_frame2) = [2] \<and>
   fst reading_frame3 = [\<lparr>hero_id = 0, position = \<lparr>px = 102, py = 101\<rparr>, level = 6\<rparr>] \<and>
   heroes_list (snd reading_frame3) = [\<lparr>hero_id = 0, position = \<lparr>px = 102, py = 101\<rparr>, level = 6\<rparr>] \<and>
   appearances (snd reading_frame3) = [3] \<and>
   last_updated (snd reading_frame3) = [1000] \<and>
   fst reading_frame4 = [\<lparr>hero_id = 1, position = \<lparr>px = 102, py = 101\<rparr>, level = 6\<rparr>] \<and>
   heroes_list (snd reading_frame4) =
     [\<lparr>hero_id = 0, position = \<lparr>px = 102, py = 101\<rparr>, level = 6\<rparr>,
      \<lparr>hero_id = 1, position = \<lparr>px = 102, py = 101\<rparr>, level = 6\<rparr>] \<and>
   appearances (snd reading_frame4) = [3, 1] \<and>
   last_updated (snd reading_frame4) = [1000, 4200]"
  by (simp add: reading_frame1_eq reading_frame2_eq reading_frame3_eq reading_frame4_eq)

section \<open>Eviction\<close>

lemma two_stale_eq:
  "two_stale = GameVideoAnalyzer\<lparr> hero_id_next := 2, is_heroes_list_initialized := True,
       last_updated := [0, 0], appearances := [1, 1],
       heroes_list := [\<lparr>hero_id = 0, position = \<lparr> px = 100, py = 100 \<rparr>, level = 3\<rparr>,
                       \<lparr>hero_id = 1, position = \<lparr> px = 300, py = 200 \<rparr>, level = 4\<rparr>] \<rparr>"
  by (simp add: two_stale_def tracker_eval delete_inactive_heroes_def delete_loop.simps erase_def)

text \<open>
  Claim C2 at this state. Both heroes have been inactive for 1500 ms, more than the window
  of 1000 ms, and have fewer than 5 appearances; \<^verbatim>\<open>delete_inactive_heroes(1500, 1000, 5)\<close>
  erases hero 0 only. Hero 1 moves to index 0 by the erasure, the loop index advances to 1,
  and the loop ends without looking at hero 1.
\<close>

theorem C2_eviction_skips_successor:
  "heroes_list (delete_inactive_heroes 1500 1000 5 two_stale) =
     [\<lparr>hero_id = 1, position = \<lparr> px = 300, py = 200 \<rparr>, level = 4\<rparr>] \<and>
   last_updated (delete_inactive_heroes 1500 1000 5 two_stale) = [0] \<and>
   appearances (delete_inactive_heroes 1500 1000 5 two_stale) = [1]"
  by (simp add: two_stale_eq GameVideoAnalyzer_def delete_inactive_heroes_def delete_loop.simps erase_def)

lemma zip_erase:
  "length xs = length ys \<Longrightarrow> zip (erase xs i) (erase ys i) = erase (zip xs ys) i"
  by (simp add: erase_def take_zip drop_zip)

lemma set_erase_keeps: "x \<in> set xs \<Longrightarrow> x \<noteq> xs ! i \<Longrightarrow> x \<in> set (erase xs i)"
proof -
  assume x: "x \<in> set xs" and ne: "x \<noteq> xs ! i"
  then obtain k where k: "k < length xs" "xs ! k = x" by (auto simp: in_set_conv_nth)
  with ne have "k \<noteq> i" by auto
  then consider "k < i" | "i < k" by linarith
  then show ?thesis
  proof cases
    case 1
    with k have "x \<in> set (take i xs)" by (auto simp: in_set_conv_nth intro!: exI [of _ k])
    then show ?thesis by (simp add: erase_def)
  next
    case 2
    with k have "k - Suc i < length (drop (Suc i) xs)" "drop (Suc i) xs ! (k - Suc i) = x"
      by auto
    then have "x \<in> set (drop (Suc i) xs)" by (metis nth_mem)
    then show ?thesis by (simp add: erase_def)
  qed
qed

lemma delete_loop_entries:
  "length (last_updated st) = length (heroes_list st) \<Longrightarrow>
   length (appearances st) = length (heroes_list st) \<Longrightarrow>
   set (entries (delete_loop ts inactive_time num_app i st)) \<subseteq> set (entries st) \<and>
   (\<forall>e \<in> set (entries st). \<not> evictable ts inactive_time num_app e \<longrightarrow>
        e \<in> set (entries (delete_loop ts inactive_time num_app i st)))"
proof (induction ts inactive_time num_app i st rule: delete_loop.induct)
  case (1 ts inactive_time num_app i st)
  note eq = delete_loop.simps [of ts inactive_time num_app i st]
  show ?case
  proof (cases "i < length (heroes_list st)")
    case False
    then show ?thesis by (simp add: eq)
  next
    case True
    show ?thesis
    proof (cases "ts - last_updated st ! i > inactive_time \<and> appearances st ! i < num_app")
      case False
      then have "delete_loop ts inactive_time num_app i st = delete_loop ts inactive_time num_app (Suc i) st"
        using True by (auto simp: eq)
      with "1.IH"(2) [OF True False "1.prems"] show ?thesis by simp
    next
      case ev: True
      let ?st' = "st\<lparr> heroes_list := erase (heroes_list st) i,
                    last_updated := erase (last_updated st) i,
                    appearances := erase (appearances st) i \<rparr>"
      have len: "length (last_updated ?st') = length (heroes_list ?st')"
        "length (appearances ?st') = length (heroes_list ?st')"
        using "1.prems" True by (simp_all add: length_erase)
      have e': "entries ?st' = erase (entries st) i"
        using "1.prems" by (simp add: entries_def zip_erase length_erase True)
      have ei: "evictable ts inactive_time num_app (entries st ! i)"
        using ev True "1.prems" by (simp add: entries_def evictable_def)
      have sub: "set (entries ?st') \<subseteq> set (entries st)"
        unfolding e' by (rule set_erase)
      have keep: "\<forall>e \<in> set (entries st). \<not> evictable ts inactive_time num_app e \<longrightarrow> e \<in> set (entries ?st')"
        unfolding e' using ei by (auto intro: set_erase_keeps)
      from "1.IH"(1) [OF True ev len] sub keep
      have "set (entries (delete_loop ts inactive_time num_app (Suc i) ?st')) \<subseteq> set (entries st) \<and>
            (\<forall>e \<in> set (entries st). \<not> evictable ts inactive_time num_app e \<longrightarrow>
               e \<in> set (entries (delete_loop ts inactive_time num_app (Suc i) ?st')))"
        by blast
      moreover have "delete_loop ts inactive_time num_app i st =
          delete_loop ts inactive_time num_app (Suc i) ?st'"
        using True ev by (simp add: eq)
      ultimately show ?thesis by simp
    qed
  qed
qed

text \<open>
  What holds of the eviction for every state with parallel vectors of equal length: no
  entry is added or changed, and every entry that is not both inactive beyond the window
  and below the appearance floor is retained. An established hero is therefore never
  erased, however stale it is.
\<close>

theorem delete_inactive_heroes_keeps:
  assumes "length (last_updated st) = length (heroes_list st)"
    and "length (appearances st) = length (heroes_list st)"
  shows "set (entries (delete_inactive_heroes ts inactive_time num_app st)) \<subseteq> set (entries st) \<and>
         (\<forall>e \<in> set (entries st). \<not> evictable ts inactive_time num_app e \<longrightarrow>
            e \<in> set (entries (delete_inactive_heroes ts inactive_time num_app st)))"
  unfolding delete_inactive_heroes_def using assms by (rule delete_loop_entries)

theorem delete_inactive_heroes_keeps_witness:
  "entries (delete_inactive_heroes 1500 1000 5 fleeting_and_established) =
     [(\<lparr>hero_id = 1, position = \<lparr> px = 300, py = 200 \<rparr>, level = 4\<rparr>, 0, 10)]"
  using delete_inactive_heroes_keeps [of fleeting_and_established 1500 1000 5]
  by (simp add: fleeting_and_established_def GameVideoAnalyzer_def delete_inactive_heroes_def
        delete_loop.simps erase_def entries_def)


section \<open>The first frame\<close>

lemma created_fresh_Nil: "created_fresh st [] ts = st"
  by (simp add: created_fresh_def)

lemma length_fresh_heroes [simp]: "length (fresh_heroes n rs) = length rs"
  by (induction rs arbitrary: n) simp_all

lemma fresh_heroes_snoc:
  "fresh_heroes n (rs @ [r]) =
     fresh_heroes n rs @ [\<lparr> hero_id = n + int (length rs), position = snd r, level = fst r \<rparr>]"
  by (induction rs arbitrary: n) (simp_all add: add.assoc)

lemma assign_hero_uninitialized:
  assumes "\<not> is_heroes_list_initialized st"
  shows "assign_hero lvl pos (hsl @ fresh_heroes (hero_id_next st) rs) ts
           (created_fresh st (fresh_heroes (hero_id_next st) rs) ts) =
         (hsl @ fresh_heroes (hero_id_next st) (rs @ [(lvl, pos)]),
          created_fresh st (fresh_heroes (hero_id_next st) (rs @ [(lvl, pos)])) ts)"
  using assms
  by (simp add: assign_hero_def new_hero_def created_fresh_def Let_def fresh_heroes_snoc
        replicate_append_same)

lemma pairing_step_uninitialized:
  assumes "\<not> is_heroes_list_initialized st"
  shows "pairing_step rv ts i (flags, hsl @ fresh_heroes (hero_id_next st) rs,
                               created_fresh st (fresh_heroes (hero_id_next st) rs) ts) =
         (loop_flags rv flags i,
          hsl @ fresh_heroes (hero_id_next st)
                  (rs @ (case loop_reading rv flags i of None \<Rightarrow> [] | Some r \<Rightarrow> [r])),
          created_fresh st (fresh_heroes (hero_id_next st)
                  (rs @ (case loop_reading rv flags i of None \<Rightarrow> [] | Some r \<Rightarrow> [r]))) ts)"
proof (cases "flags ! i")
  case False
  then show ?thesis by (simp add: pairing_step_def loop_flags_def loop_reading_def)
next
  case True
  show ?thesis
  proof (cases "pair_partner rv i")
    case (Some j)
    with True show ?thesis
      by (simp add: pairing_step_def loop_flags_def loop_reading_def Let_def
            assign_hero_uninitialized [OF assms])
  next
    case None
    with True show ?thesis
      by (simp add: pairing_step_def loop_flags_def loop_reading_def Let_def
            assign_hero_uninitialized [OF assms])
  qed
qed

lemma fold_pairing_uninitialized:
  assumes "\<not> is_heroes_list_initialized st"
  shows "fold (pairing_step rv ts) js (flags, hsl @ fresh_heroes (hero_id_next st) rs,
                               created_fresh st (fresh_heroes (hero_id_next st) rs) ts) =
         (fold (\<lambda>i f. loop_flags rv f i) js flags,
          hsl @ fresh_heroes (hero_id_next st) (rs @ readings_from rv flags js),
          created_fresh st (fresh_heroes (hero_id_next st) (rs @ readings_from rv flags js)) ts)"
proof (induction js arbitrary: flags rs)
  case Nil
  show ?case by simp
next
  case (Cons j js)
  show ?case
    by (simp add: pairing_step_uninitialized [OF assms] Cons.IH)
qed

text \<open>
  In a frame none of whose readings has a partner, the readings of the frame are the
  digits greater than 0 with their corners, in the order of \<^verbatim>\<open>rect_num_vec\<close>.
\<close>

lemma readings_from_unpaired:
  assumes "\<forall>i < length rv. pair_partner rv i = None"
  shows "\<forall>j \<in> set js. j < length rv \<Longrightarrow>
         readings_from rv (replicate (length rv) True) js =
           concat (map (\<lambda>j. if snd (rv ! j) > 0 then [(snd (rv ! j), fst (rv ! j))] else []) js)"
proof (induction js)
  case Nil
  show ?case by simp
next
  case (Cons j js)
  then have j: "j < length rv" and rest: "\<forall>j \<in> set js. j < length rv" by simp_all
  from j assms have pp: "pair_partner rv j = None" by simp
  have fl: "loop_flags rv (replicate (length rv) True) j = replicate (length rv) True"
    by (simp add: loop_flags_def pp)
  have rd: "loop_reading rv (replicate (length rv) True) j =
            (if snd (rv ! j) > 0 then Some (snd (rv ! j), fst (rv ! j)) else None)"
    using j by (simp add: loop_reading_def pp)
  show ?case using Cons.IH [OF rest] by (simp add: fl rd)
qed

lemma frame_readings_unpaired:
  assumes "\<forall>i < length rv. pair_partner rv i = None"
  shows "frame_readings rv = map (\<lambda>r. (snd r, fst r)) (filter (\<lambda>r. snd r > 0) rv)"
proof -
  have "frame_readings rv =
        concat (map (\<lambda>j. if snd (rv ! j) > 0 then [(snd (rv ! j), fst (rv ! j))] else []) [0..<length rv])"
    unfolding frame_readings_def by (rule readings_from_unpaired [OF assms]) simp
  also have "\<dots> = concat (map (\<lambda>r. if snd r > 0 then [(snd r, fst r)] else []) (map ((!) rv) [0..<length rv]))"
    by (simp add: comp_def)
  also have "\<dots> = concat (map (\<lambda>r. if snd r > 0 then [(snd r, fst r)] else []) rv)"
    by (simp only: map_nth)
  also have "\<dots> = map (\<lambda>r. (snd r, fst r)) (filter (\<lambda>r. snd r > 0) rv)"
    by (induction rv) simp_all
  finally show ?thesis .
qed

text \<open>
  Claim C10. While the heroes list is not marked initialized, that is during the first
  \<^verbatim>\<open>track_hero\<close> call, which sets the mark only after its pairing loop: a call of
  \<^verbatim>\<open>assign_hero\<close> appends one new hero with the reading's level and position, the next
  unoccupied identity and one appearance, whatever heroes are tracked already; and the
  \<^verbatim>\<open>track_hero\<close> call appends one new hero for every reading of the frame, in the order
  of the loop, with consecutive identities and one appearance each, and changes no
  existing entry. In a frame without pairs the readings are the digits greater than 0.
  In particular two readings with the same position and level in the first frame get
  the identities 0 and 1.
\<close>

theorem C10_first_frame_creates:
  assumes "\<not> is_heroes_list_initialized st"
  shows "assign_hero lvl pos hero_status_list ts st =
           (hero_status_list @ [\<lparr> hero_id = hero_id_next st, position = pos, level = lvl \<rparr>],
            st\<lparr> hero_id_next := hero_id_next st + 1,
                heroes_list := heroes_list st @ [\<lparr> hero_id = hero_id_next st, position = pos, level = lvl \<rparr>],
                last_updated := last_updated st @ [ts],
                appearances := appearances st @ [1] \<rparr>) \<and>
         track_hero rect_num_vec hero_status_list ts st =
           (hero_status_list @ fresh_heroes (hero_id_next st) (frame_readings rect_num_vec),
            (created_fresh st (fresh_heroes (hero_id_next st) (frame_readings rect_num_vec)) ts)
              \<lparr> is_heroes_list_initialized := True \<rparr>) \<and>
         ((\<forall>i < length rect_num_vec. pair_partner rect_num_vec i = None) \<longrightarrow>
            frame_readings rect_num_vec =
              map (\<lambda>r. (snd r, fst r)) (filter (\<lambda>r. snd r > 0) rect_num_vec))"
proof (intro conjI impI)
  show "assign_hero lvl pos hero_status_list ts st =
           (hero_status_list @ [\<lparr> hero_id = hero_id_next st, position = pos, level = lvl \<rparr>],
            st\<lparr> hero_id_next := hero_id_next st + 1,
                heroes_list := heroes_list st @ [\<lparr> hero_id = hero_id_next st, position = pos, level = lvl \<rparr>],
                last_updated := last_updated st @ [ts],
                appearances := appearances st @ [1] \<rparr>)"
    using assms by (simp add: assign_hero_def new_hero_def Let_def)
  show "track_hero rect_num_vec hero_status_list ts st =
           (hero_status_list @ fresh_heroes (hero_id_next st) (frame_readings rect_num_vec),
            (created_fresh st (fresh_heroes (hero_id_next st) (frame_readings rect_num_vec)) ts)
              \<lparr> is_heroes_list_initialized := True \<rparr>)"
    using fold_pairing_uninitialized [OF assms, of rect_num_vec ts "[0..<length rect_num_vec]"
            "replicate (length rect_num_vec) True" hero_status_list "[]"]
    by (simp add: track_hero_def frame_readings_def created_fresh_Nil)
  assume "\<forall>i < length rect_num_vec. pair_partner rect_num_vec i = None"
  then show "frame_readings rect_num_vec =
              map (\<lambda>r. (snd r, fst r)) (filter (\<lambda>r. snd r > 0) rect_num_vec)"
    by (rule frame_readings_unpaired)
qed

theorem C10_first_frame_creates_witness:
  "\<not> is_heroes_list_initialized GameVideoAnalyzer \<and>
   pair_partner [(\<lparr>px = 100, py = 100\<rparr>, 5), (\<lparr>px = 100, py = 100\<rparr>, 5)] 0 = None \<and>
   pair_partner [(\<lparr>px = 100, py = 100\<rparr>, 5), (\<lparr>px = 100, py = 100\<rparr>, 5)] 1 = None \<and>
   frame_readings [(\<lparr>px = 100, py = 100\<rparr>, 5), (\<lparr>px = 100, py = 100\<rparr>, 5)] =
     [(5, \<lparr>px = 100, py = 100\<rparr>), (5, \<lparr>px = 100, py = 100\<rparr>)] \<and>
   track_hero [(\<lparr>px = 100, py = 100\<rparr>, 5), (\<lparr>px = 100, py = 100\<rparr>, 5)] [] 0 GameVideoAnalyzer =
     ([\<lparr>hero_id = 0, position = \<lparr>px = 100, py = 100\<rparr>, level = 5\<rparr>,
       \<lparr>hero_id = 1, position = \<lparr>px = 100, py = 100\<rparr>, level = 5\<rparr>],
      GameVideoAnalyzer\<lparr> hero_id_next := 2, is_heroes_list_initialized := True,
        last_updated := [0, 0], appearances := [1, 1],
        heroes_list := [\<lparr>hero_id = 0, position = \<lparr>px = 100, py = 100\<rparr>, level = 5\<rparr>,
                        \<lparr>hero_id = 1, position = \<lparr>px = 100, py = 100\<rparr>, level = 5\<rparr>] \<rparr>)"
proof -
  let ?rv = "[(\<lparr>px = 100, py = 100\<rparr>, 5::int), (\<lparr>px = 100, py = 100\<rparr>, 5)]"
  have i: "\<not> is_heroes_list_initialized GameVideoAnalyzer"
    by (simp add: GameVideoAnalyzer_def)
  have p: "pair_partner ?rv 0 = None" "pair_partner ?rv 1 = None"
    by (simp_all add: pair_partner_def same_icon_def upt_rec)
  have u: "\<forall>i < length ?rv. pair_partner ?rv i = None"
  proof (intro allI impI)
    fix i assume "i < length ?rv"
    then consider "i = 0" | "i = 1" by fastforce
    then show "pair_partner ?rv i = None"
      using p by cases simp_all
  qed
  note c10 = C10_first_frame_creates [OF i, of 0 "\<lparr>px = 0, py = 0\<rparr>" "[]" 0 ?rv]
  from c10 u have r: "frame_readings ?rv = [(5, \<lparr>px = 100, py = 100\<rparr>), (5, \<lparr>px = 100, py = 100\<rparr>)]"
    by simp
  from c10 have "track_hero ?rv [] 0 GameVideoAnalyzer =
     ([] @ fresh_heroes (hero_id_next GameVideoAnalyzer) (frame_readings ?rv),
      (created_fresh GameVideoAnalyzer (fresh_heroes (hero_id_next GameVideoAnalyzer) (frame_readings ?rv)) 0)
         \<lparr> is_heroes_list_initialized := True \<rparr>)"
    by (rule conjunct2 [THEN conjunct1])
  then have "track_hero ?rv [] 0 GameVideoAnalyzer =
     ([\<lparr>hero_id = 0, position = \<lparr>px = 100, py = 100\<rparr>, level = 5\<rparr>,
       \<lparr>hero_id = 1, position = \<lparr>px = 100, py = 100\<rparr>, level = 5\<rparr>],
      GameVideoAnalyzer\<lparr> hero_id_next := 2, is_heroes_list_initialized := True,
        last_updated := [0, 0], appearances := [1, 1],
        heroes_list := [\<lparr>hero_id = 0, position = \<lparr>px = 100, py = 100\<rparr>, level = 5\<rparr>,
                        \<lparr>hero_id = 1, position = \<lparr>px = 100, py = 100\<rparr>, level = 5\<rparr>] \<rparr>)"
    by (simp add: r created_fresh_def GameVideoAnalyzer_def)
  with i p r show ?thesis by (intro conjI)
qed

section \<open>Properties of the joystick estimate\<close>

lemma trunc_int_of_int [simp]: "trunc_int (real_of_int k) = k"
  by (simp add: trunc_int_def)

lemma trunc_int_numeral [simp]: "trunc_int (numeral n) = numeral n" "trunc_int 0 = 0" "trunc_int 1 = 1"
  by (simp_all add: trunc_int_def)

lemma sqrt2_bounds: "1 < sqrt 2" "sqrt 2 < 2"
  by (simp_all add: real_less_rsqrt real_less_lsqrt)

lemma trunc_sqrt2: "trunc_int (sqrt 2) = 1" "trunc_int (1 + sqrt 2) = 2"
  using sqrt2_bounds by (simp_all add: trunc_int_def floor_eq_iff)

lemma two_diagonal_samples_eq: "dist_list two_diagonal_samples = [sqrt 2, sqrt 2]"
  by (simp add: two_diagonal_samples_def estimate_joystick_angle_def circle_center_def
        GameVideoAnalyzer_def trunc_int_def floor_eq_iff)

lemma one_sample_eq: "dist_list one_sample = [5]"
  by (simp add: one_sample_def estimate_joystick_angle_def circle_center_def
        GameVideoAnalyzer_def real_sqrt_unique)

text \<open>
  Claim C4 at the two samples \<open>\<surd>2, \<surd>2\<close>. The arithmetic mean is \<open>\<surd>2\<close>, but
  \<^verbatim>\<open>estimate_js_axis_status\<close> returns the mean 1: the \<^verbatim>\<open>int\<close> accumulator of
  \<^verbatim>\<open>std::accumulate\<close> holds 1 after the first sample and 2 after the second, and 2 / 2 = 1.
\<close>

theorem C4_mean_truncates_running_sum:
  "fst (estimate_js_axis_status two_diagonal_samples out) = Fin 1 \<and>
   sample_mean (dist_list two_diagonal_samples) = sqrt 2 \<and>
   sqrt 2 \<noteq> 1"
  using sqrt2_bounds
  by (simp add: estimate_js_axis_status_def two_diagonal_samples_eq accumulate_int_def trunc_sqrt2
        sample_mean_def Let_def)

text \<open>
  On the samples 3, 4, 5, which are whole numbers, the truncation loses nothing: the mean
  is 4 and the standard deviation is 1.
\<close>

lemma js_status_3_4_5:
  "estimate_js_axis_status (st\<lparr> dist_list := [3, 4, 5] \<rparr>) out = (Fin 4, Fin 1)"
  by (simp add: estimate_js_axis_status_def accumulate_int_def Let_def div_size_def power2_eq_square)

lemma accumulate_int_whole:
  "accumulate_int (map real_of_int ks) a = a + sum_list ks"
  unfolding accumulate_int_def
proof (induction ks arbitrary: a)
  case Nil
  show ?case by simp
next
  case (Cons k ks)
  have "trunc_int (real_of_int a + real_of_int k) = a + k"
    using trunc_int_of_int [of "a + k"] by simp
  with Cons [of "a + k"] show ?case by (simp add: add.assoc)
qed

lemma real_sum_list: "real_of_int (sum_list ks) = sum_list (map real_of_int ks)"
  by (induction ks) simp_all

lemma fold_err_sum:
  "fold (\<lambda>d s. s + (d - m)\<^sup>2) xs s0 = s0 + (\<Sum>x\<leftarrow>xs. (x - m)\<^sup>2)" for m :: real
  by (induction xs arbitrary: s0) (simp_all add: add.assoc)

text \<open>
  For at least two samples that are whole numbers the truncation of the running sum loses
  nothing: the result is the arithmetic mean and the standard deviation with divisor
  \<open>n - 1\<close>.
\<close>

theorem js_status_whole_samples:
  assumes "2 \<le> length ks"
  shows "estimate_js_axis_status (st\<lparr> dist_list := map real_of_int ks \<rparr>) out =
           (Fin (sample_mean (map real_of_int ks)), Fin (sample_stddev (map real_of_int ks)))"
proof -
  let ?xs = "map real_of_int ks"
  have ne: "?xs \<noteq> []" using assms by auto
  have n1: "length ks - 1 \<noteq> 0" using assms by simp
  have m: "real_of_int (accumulate_int ?xs 0) / real (length ?xs) = sample_mean ?xs"
    by (simp add: accumulate_int_whole sample_mean_def real_sum_list)
  have nonneg: "0 \<le> (\<Sum>x\<leftarrow>?xs. (x - sample_mean ?xs)\<^sup>2) / real (length ks - 1)"
    by (intro divide_nonneg_nonneg sum_list_nonneg) auto
  show ?thesis
    using ne n1 nonneg
    by (simp add: estimate_js_axis_status_def Let_def m [simplified] fold_err_sum div_size_def
          sample_stddev_def)
qed

theorem js_status_whole_samples_witness:
  "estimate_js_axis_status (GameVideoAnalyzer\<lparr> dist_list := [3, 4, 5] \<rparr>) (NaN, NaN) = (Fin 4, Fin 1)"
  using js_status_whole_samples [of "[3, 4, 5]" GameVideoAnalyzer "(NaN, NaN)"]
  by (simp add: sample_mean_def sample_stddev_def power2_eq_square)


text \<open>
  Claim C5 with exactly one sample. \<^verbatim>\<open>estimate_js_axis_status\<close> returns early only on an
  empty list; with one sample it divides \<^verbatim>\<open>err_sum\<close> by \<^verbatim>\<open>size() - 1 = 0\<close> and writes
  the result to \<^verbatim>\<open>*stdvar\<close>: a NaN (0/0) when the sample is a whole number, as for the
  sample 5, and plus infinity otherwise.
\<close>

theorem C5_single_sample_divides_by_zero:
  "estimate_js_axis_status one_sample out = (Fin 5, NaN) \<and>
   snd (estimate_js_axis_status (st\<lparr> dist_list := [d] \<rparr>) out) =
     (if real_of_int (trunc_int d) = d then NaN else PInf)"
  by (simp add: estimate_js_axis_status_def one_sample_eq accumulate_int_def Let_def div_size_def)




section \<open>Properties of the rounding\<close>

lemma floor_log2_half: "0 < y \<Longrightarrow> \<lfloor>log 2 (y / 2)\<rfloor> = \<lfloor>log 2 y\<rfloor> - 1"
proof -
  assume y: "0 < y"
  then have "log 2 (y / 2) = log 2 y - 1" by (simp add: log_divide)
  then show ?thesis by simp
qed

lemma floor_log2_double: "0 < y \<Longrightarrow> \<lfloor>log 2 (y * 2)\<rfloor> = \<lfloor>log 2 y\<rfloor> + 1"
proof -
  assume y: "0 < y"
  then have "log 2 (y * 2) = log 2 y + 1" by (simp add: log_mult)
  then show ?thesis by simp
qed

lemma expo2_log: "0 < y \<Longrightarrow> expo2 y = \<lfloor>log 2 y\<rfloor>"
proof (induction y rule: expo2.induct)
  case (1 y)
  note eq = expo2.simps [of y]
  show ?case
  proof (cases "2 \<le> y")
    case True
    with "1.prems" "1.IH"(1) have "expo2 (y / 2) = \<lfloor>log 2 (y / 2)\<rfloor>" by simp
    with True "1.prems" show ?thesis by (simp add: eq floor_log2_half)
  next
    case False
    show ?thesis
    proof (cases "y < 1")
      case True
      with False "1.prems" "1.IH"(2) have "expo2 (y * 2) = \<lfloor>log 2 (y * 2)\<rfloor>" by simp
      with True False "1.prems" show ?thesis by (simp add: eq floor_log2_double)
    next
      case ge: False
      with False "1.prems" have "0 \<le> log 2 y" "log 2 y < 1" by (simp_all add: log_less_iff)
      then have "\<lfloor>log 2 y\<rfloor> = 0" by (simp add: floor_eq_iff)
      with ge False "1.prems" show ?thesis by (simp add: eq)
    qed
  qed
qed

lemma pow2_powr: "pow2 e = 2 powr of_int e"
  by (simp add: pow2_def powr_int)

lemma dbl_round_log:
  "dbl_round x =
     (if x = 0 then 0
      else of_int (round_even (x / 2 powr of_int (\<lfloor>log 2 \<bar>x\<bar>\<rfloor> - 52))) *
             2 powr of_int (\<lfloor>log 2 \<bar>x\<bar>\<rfloor> - 52))"
proof (cases "x = 0")
  case True
  then show ?thesis by (simp add: dbl_round_def)
next
  case False
  then have "expo2 \<bar>x\<bar> = \<lfloor>log 2 \<bar>x\<bar>\<rfloor>" by (intro expo2_log) simp
  with False show ?thesis by (simp only: dbl_round_def pow2_powr if_False)
qed

lemma round_even_of_int [simp]: "round_even (of_int z) = z"
  by (simp add: round_even_def)

lemma round_even_ge_floor: "\<lfloor>x\<rfloor> \<le> round_even x"
  by (simp add: round_even_def)

lemma dbl_round_0 [simp]: "dbl_round 0 = 0"
  by (simp add: dbl_round_log)

lemma log2_bounds:
  assumes "x \<noteq> 0"
  shows "2 powr of_int \<lfloor>log 2 \<bar>x\<bar>\<rfloor> \<le> \<bar>x\<bar>" "\<bar>x\<bar> < 2 powr of_int (\<lfloor>log 2 \<bar>x\<bar>\<rfloor> + 1)"
proof -
  have "0 < \<bar>x\<bar>" using assms by simp
  then have "2 powr of_int \<lfloor>log 2 \<bar>x\<bar>\<rfloor> \<le> \<bar>x\<bar> \<and> \<bar>x\<bar> < 2 powr of_int (\<lfloor>log 2 \<bar>x\<bar>\<rfloor> + 1)"
    using floor_log_eq_powr_iff [of "\<bar>x\<bar>" 2 "\<lfloor>log 2 \<bar>x\<bar>\<rfloor>"] by simp
  then show "2 powr of_int \<lfloor>log 2 \<bar>x\<bar>\<rfloor> \<le> \<bar>x\<bar>" "\<bar>x\<bar> < 2 powr of_int (\<lfloor>log 2 \<bar>x\<bar>\<rfloor> + 1)"
    by simp_all
qed

lemma dbl_round_pos:
  assumes "0 < x"
  shows "0 < dbl_round x"
proof -
  let ?L = "\<lfloor>log 2 \<bar>x\<bar>\<rfloor>"
  have lb: "2 powr of_int ?L \<le> x" using log2_bounds(1) [of x] assms by simp
  have "2 powr of_int (?L - 52) \<le> (2::real) powr of_int ?L"
    by (intro powr_mono) simp_all
  then have le: "2 powr of_int (?L - 52) \<le> x" using lb by linarith
  have pos: "0 < (2::real) powr of_int (?L - 52)" by simp
  from le pos have "1 \<le> x / 2 powr of_int (?L - 52)" by (simp add: le_divide_eq)
  then have "1 \<le> \<lfloor>x / 2 powr of_int (?L - 52)\<rfloor>" by simp
  then have "0 < round_even (x / 2 powr of_int (?L - 52))"
    using round_even_ge_floor [of "x / 2 powr of_int (?L - 52)"] by linarith
  then show ?thesis using assms by (simp add: dbl_round_log)
qed

lemma dbl_round_nonneg: "0 \<le> x \<Longrightarrow> 0 \<le> dbl_round x"
  using dbl_round_pos [of x] by (cases "x = 0") (simp_all add: less_eq_real_def)

lemma dbl_round_dyadic:
  assumes "\<bar>k\<bar> < 2 ^ 53"
  shows "dbl_round (of_int k / 2 ^ n) = of_int k / 2 ^ n"
proof (cases "k = 0")
  case True
  then show ?thesis by simp
next
  case False
  let ?x = "real_of_int k / 2 ^ n"
  let ?L = "\<lfloor>log 2 \<bar>?x\<bar>\<rfloor>"
  have x0: "?x \<noteq> 0" using False by simp
  have lb: "2 powr of_int ?L \<le> \<bar>?x\<bar>" using log2_bounds(1) [OF x0] .
  have "\<bar>?x\<bar> = real_of_int \<bar>k\<bar> / 2 ^ n" by (simp add: abs_divide)
  also have "\<dots> < 2 ^ 53 / 2 ^ n"
    using assms by (intro divide_strict_right_mono) (simp_all add: of_int_less_iff [symmetric] del: of_int_less_iff)
  also have "\<dots> = 2 powr of_int (53 - int n)"
    by (simp add: powr_diff powr_realpow)
  finally have ub: "\<bar>?x\<bar> < 2 powr of_int (53 - int n)" .
  from lb ub have "2 powr of_int ?L < (2::real) powr of_int (53 - int n)" by (rule le_less_trans)
  then have "real_of_int ?L < of_int (53 - int n)" by simp
  then have "?L < 53 - int n" by (simp only: of_int_less_iff)
  then have s: "0 \<le> 52 - int n - ?L" by simp
  define s where "s = nat (52 - int n - ?L)"
  have Ls: "of_int ?L - 52 = - real n - real s" using s by (simp add: s_def)
  have p: "(2::real) powr of_int (?L - 52) = 1 / (2 ^ n * 2 ^ s)"
    using Ls by (simp add: powr_diff powr_minus powr_realpow divide_simps)
  have q: "?x / 2 powr of_int (?L - 52) = of_int (k * 2 ^ s)"
    unfolding p by simp
  have r: "round_even (?x / 2 powr of_int (?L - 52)) = k * 2 ^ s"
    unfolding q by (rule round_even_of_int)
  have "dbl_round ?x = of_int (k * 2 ^ s) * 2 powr of_int (?L - 52)"
    using x0 by (simp only: dbl_round_log r if_False)
  also have "\<dots> = ?x" unfolding p by simp
  finally show ?thesis .
qed

lemma dbl_round_int: "\<bar>k\<bar> < 2 ^ 53 \<Longrightarrow> dbl_round (of_int k) = of_int k"
  using dbl_round_dyadic [of k 0] by simp

lemma dbl_round_1 [simp]: "dbl_round 1 = 1"
  using dbl_round_int [of 1] by simp

lemma floor_log2I:
  "0 < x \<Longrightarrow> 2 powr of_int e \<le> x \<Longrightarrow> x < 2 powr of_int (e + 1) \<Longrightarrow> \<lfloor>log 2 x\<rfloor> = e"
  by (simp add: floor_log_eq_powr_iff)

lemma dbl_round_eval:
  assumes "0 < x" "2 powr of_int e \<le> x" "x < 2 powr of_int (e + 1)" "e \<le> 52"
  shows "dbl_round x = of_int (round_even (x * 2 ^ nat (52 - e))) / 2 ^ nat (52 - e)"
proof -
  have L: "\<lfloor>log 2 \<bar>x\<bar>\<rfloor> = e" using assms by (intro floor_log2I) simp_all
  have "(2::real) powr of_int (e - 52) =
          (if 0 \<le> e - 52 then 2 ^ nat (e - 52) else 1 / 2 ^ nat (- (e - 52)))"
    by (rule powr_int) simp
  then have p: "(2::real) powr of_int (e - 52) = 1 / 2 ^ nat (52 - e)"
    using assms(4) by (cases "e = 52") simp_all
  have "dbl_round x = of_int (round_even (x / 2 powr of_int (e - 52))) * 2 powr of_int (e - 52)"
    using assms(1) by (simp only: dbl_round_log L) simp
  then show ?thesis unfolding p by simp
qed

lemma dbl_round_scaled:
  assumes "e \<le> 52" "2 ^ 52 \<le> x * 2 ^ nat (52 - e)" "x * 2 ^ nat (52 - e) < 2 ^ 53"
  shows "dbl_round x = of_int (round_even (x * 2 ^ nat (52 - e))) / 2 ^ nat (52 - e)"
proof -
  have "(2::real) powr of_int (e - 52) =
          (if 0 \<le> e - 52 then 2 ^ nat (e - 52) else 1 / 2 ^ nat (- (e - 52)))"
    by (rule powr_int) simp
  then have p: "(2::real) powr of_int (e - 52) = 1 / 2 ^ nat (52 - e)"
    using assms(1) by (cases "e = 52") simp_all
  have q: "(2::real) powr of_int e = 2 powr of_int (e - 52) * 2 ^ 52"
    "(2::real) powr of_int (e + 1) = 2 powr of_int (e - 52) * 2 ^ 53"
    by (simp_all add: powr_diff powr_add)
  have pos: "0 < x"
  proof (rule ccontr)
    assume "\<not> 0 < x"
    then have "x * 2 ^ nat (52 - e) \<le> 0" by (simp add: mult_le_0_iff)
    with assms(2) show False by simp
  qed
  have b: "2 powr of_int e \<le> x" "x < 2 powr of_int (e + 1)"
    unfolding q p using assms(2,3) by (simp_all add: field_simps)
  from pos b assms(1) show ?thesis by (rule dbl_round_eval)
qed

lemma dbl_round_6_5: "dbl_round (6 / 5) = 5404319552844595 / 4503599627370496"
  by (subst dbl_round_scaled [of 0]) (simp_all add: round_even_def)

lemma dbl_round_4_5: "dbl_round (4 / 5) = 3602879701896397 / 4503599627370496"
  by (subst dbl_round_scaled [of "- 1"]) (simp_all add: round_even_def)

lemma dbl_round_3_10: "dbl_round (3 / 10) = 5404319552844595 / 18014398509481984"
  by (subst dbl_round_scaled [of "- 2"]) (simp_all add: round_even_def)

lemma dbl_round_13_10: "dbl_round (13 / 10) = 5854679515581645 / 4503599627370496"
  by (subst dbl_round_scaled [of 0]) (simp_all add: round_even_def)

lemma dbl_round_8_5: "dbl_round (8 / 5) = 3602879701896397 / 2251799813685248"
  by (subst dbl_round_scaled [of 0]) (simp_all add: round_even_def)

lemma dbl_round_41_10: "dbl_round (41 / 10) = 2308094809027379 / 562949953421312"
  by (subst dbl_round_scaled [of 2]) (simp_all add: round_even_def)

lemma dbl_round_93_10: "dbl_round (93 / 10) = 2617717283409101 / 281474976710656"
  by (subst dbl_round_scaled [of 3]) (simp_all add: round_even_def)

lemma dbl_round_small:
  "dbl_round (1 / 4) = 1 / 4" "dbl_round (1 / 2) = 1 / 2" "dbl_round (3 / 4) = 3 / 4"
  "dbl_round 2 = 2"
  using dbl_round_dyadic [of 1 2] dbl_round_dyadic [of 1 1] dbl_round_dyadic [of 3 2]
    dbl_round_dyadic [of 2 0]
  by simp_all

text \<open>
  Two quotients of ratios that are 0.8 and 1.2 as real numbers but, rounded, lie outside
  the interval between the \<^verbatim>\<open>double\<close> constants 0.8 and 1.2; and the quotients of the
  relative size restriction for an image of 3 x 9 pixels.
\<close>

lemma dbl_round_9_7: "dbl_round (9 / 7) = 5790342378047781 / 4503599627370496"
  by (subst dbl_round_scaled [of 0]) (simp_all add: round_even_def)

lemma dbl_round_inv_9_7: "dbl_round (4503599627370496 / 5790342378047781) = 875699927544263 / 1125899906842624"
  by (subst dbl_round_scaled [of "- 1"]) (simp_all add: round_even_def)

lemma dbl_round_9_times: "dbl_round (7881299347898367 / 1125899906842624) = 7881299347898367 / 1125899906842624"
  by (subst dbl_round_scaled [of 2]) (simp_all add: round_even_def)

lemma dbl_round_12_5: "dbl_round (12 / 5) = 5404319552844595 / 2251799813685248"
  by (subst dbl_round_scaled [of 1]) (simp_all add: round_even_def)

lemma dbl_round_12_5_by_3: "dbl_round (5404319552844595 / 6755399441055744) = 7205759403792793 / 9007199254740992"
  by (subst dbl_round_scaled [of "- 1"]) (simp_all add: round_even_def)

lemma dbl_round_2_5: "dbl_round (2 / 5) = 3602879701896397 / 9007199254740992"
  by (subst dbl_round_scaled [of "- 2"]) (simp_all add: round_even_def)

lemma dbl_round_1_3: "dbl_round (1 / 3) = 6004799503160661 / 18014398509481984"
  by (subst dbl_round_scaled [of "- 2"]) (simp_all add: round_even_def)

lemma dbl_round_2_5_by_1_3: "dbl_round (7205759403792794 / 6004799503160661) = 1351079888211149 / 1125899906842624"
  by (subst dbl_round_scaled [of 0]) (simp_all add: round_even_def)

lemma dbl_round_3_by_1_3: "dbl_round (4503599627370496 / 1951559838527215) = 2598230554252209 / 1125899906842624"
  by (subst dbl_round_scaled [of 1]) (simp_all add: round_even_def)

lemma dbl_round_3_by_1_6: "dbl_round (6755399441055744 / 3602879701896397) = 15 / 8"
  by (subst dbl_round_scaled [of 0]) (simp_all add: round_even_def)

lemma dbl_round_9_by_4_1: "dbl_round (5066549580791808 / 2308094809027379) = 308935950048281 / 140737488355328"
  by (subst dbl_round_scaled [of 1]) (simp_all add: round_even_def)

lemma dbl_round_9_by_9_3: "dbl_round (2533274790395904 / 2617717283409101) = 8716644440071927 / 9007199254740992"
  by (subst dbl_round_scaled [of "- 1"]) (simp_all add: round_even_def)

section \<open>Properties of the digit recognition\<close>

lemma mat_ok_not_empty: "mat_ok m \<Longrightarrow> \<not> mat_empty m"
  by (simp add: mat_ok_def mat_empty_def)

lemma hw_ratio_pos:
  assumes "0 < r" "0 < c"
  shows "\<exists>v. ddiv (Fin (real r)) (Fin (real c)) = Fin v \<and> 0 < v"
  using assms dbl_round_pos [of "real r / real c"] by simp

lemma ratio_check_same:
  assumes "0 < v"
  shows "\<not> dgt (ddiv (Fin v) (Fin v)) (dbl_round 1.2)" "\<not> dlt (ddiv (Fin v) (Fin v)) (dbl_round 0.8)"
  using assms by (simp_all add: dbl_round_6_5 dbl_round_4_5)

lemma pixel_cell_self:
  "(if (a::8 word) = 0xff \<and> a = 0 then 1 else if a = 0 \<and> a = 0xff then 1 else 0) = (0::nat)"
  by auto

lemma pixel_errors_self: "pixel_errors m m = 0"
  unfolding pixel_errors_def pixel_cell_self by simp

lemma sample_error_self:
  assumes "mat_ok m"
  shows "sample_error m m = Inr (Some 0)"
proof -
  have pos: "0 < rows m" "0 < cols m" using assms by (simp_all add: mat_ok_def)
  from hw_ratio_pos [OF pos] obtain v where
    v: "ddiv (Fin (real (rows m))) (Fin (real (cols m))) = Fin v" "0 < v" by blast
  have ne: "\<not> mat_empty m" using assms by (rule mat_ok_not_empty)
  have rs: "resize_nearest m (cols m) (rows m) = m" by (simp add: resize_nearest_def)
  show ?thesis
    unfolding sample_error_def Let_def v(1) rs pixel_errors_self
    using ratio_check_same [OF v(2)] ne by simp
qed

lemma sample_error_same_size:
  assumes "\<not> mat_empty a" "rows a = rows b" "cols a = cols b"
  shows "sample_error a b =
           Inr (Some (dbl_round (real (pixel_errors a b) / real (cols b * rows b))))"
proof -
  have pos: "0 < rows a" "0 < cols a" using assms(1) by (simp_all add: mat_empty_def)
  from hw_ratio_pos [OF pos] obtain v where
    v: "ddiv (Fin (real (rows a))) (Fin (real (cols a))) = Fin v" "0 < v" by blast
  have ne: "\<not> mat_empty b" using assms by (simp add: mat_empty_def)
  have rs: "resize_nearest a (cols b) (rows b) = a" using assms(2,3) by (simp add: resize_nearest_def)
  have v': "ddiv (Fin (real (rows b))) (Fin (real (cols b))) = Fin v"
    using v(1) assms(2,3) by simp
  show ?thesis
    unfolding sample_error_def Let_def v(1) v' rs
    using ratio_check_same [OF v(2)] ne assms by simp
qed

lemma sample_error_nonneg: "sample_error a b = Inr (Some e) \<Longrightarrow> 0 \<le> e"
  by (auto simp: sample_error_def Let_def dbl_round_nonneg split: if_splits)

lemma sample_error_returns:
  "\<not> mat_empty a \<Longrightarrow> \<not> mat_empty b \<Longrightarrow> \<exists>r. sample_error a b = Inr r"
  by (simp add: sample_error_def Let_def)

lemma roi_loop_append:
  "roi_loop src_roi number_samples (xs @ ys) acc =
     (case roi_loop src_roi number_samples xs acc of
        Inl e \<Rightarrow> Inl e
      | Inr acc' \<Rightarrow> roi_loop src_roi number_samples ys acc')"
  by (induction xs arbitrary: acc) (simp_all split: sum.splits option.splits)

lemma roi_loop_positive:
  assumes "\<not> mat_empty src_roi"
    and "\<forall>j \<in> set js. j < length number_samples \<and> \<not> mat_empty (number_samples ! j) \<and>
            sample_error src_roi (number_samples ! j) \<noteq> Inr (Some 0)"
    and "0 < m"
  shows "\<exists>m' k'. roi_loop src_roi number_samples js (m, k) = Inr (m', k') \<and> 0 < m'"
  using assms(2,3)
proof (induction js arbitrary: m k)
  case Nil
  then show ?case by simp
next
  case (Cons j js)
  then have j: "j < length number_samples" "\<not> mat_empty (number_samples ! j)"
    "sample_error src_roi (number_samples ! j) \<noteq> Inr (Some 0)"
    and rest: "\<forall>j \<in> set js. j < length number_samples \<and> \<not> mat_empty (number_samples ! j) \<and>
            sample_error src_roi (number_samples ! j) \<noteq> Inr (Some 0)"
    by simp_all
  from sample_error_returns [OF assms(1) j(2)] obtain r where
    r: "sample_error src_roi (number_samples ! j) = Inr r" by blast
  show ?case
  proof (cases r)
    case None
    with r j(1) Cons.IH [OF rest Cons.prems(2), of k] show ?thesis by simp
  next
    case (Some e)
    with r j(3) have "e \<noteq> 0" by auto
    moreover from r Some have "0 \<le> e" by (auto intro: sample_error_nonneg)
    ultimately have e: "0 < e" by simp
    show ?thesis
    proof (cases "e < m")
      case True
      with r Some j(1) Cons.IH [OF rest e, of "int j"] show ?thesis by simp
    next
      case False
      with r Some j(1) Cons.IH [OF rest Cons.prems(2), of k] show ?thesis by simp
    qed
  qed
qed

lemma roi_loop_zero:
  assumes "\<not> mat_empty src_roi"
    and "\<forall>j \<in> set js. j < length number_samples \<and> \<not> mat_empty (number_samples ! j)"
  shows "roi_loop src_roi number_samples js (0, k) = Inr (0, k)"
  using assms(2)
proof (induction js)
  case Nil
  show ?case by simp
next
  case (Cons j js)
  then have j: "j < length number_samples" "\<not> mat_empty (number_samples ! j)"
    and rest: "\<forall>j \<in> set js. j < length number_samples \<and> \<not> mat_empty (number_samples ! j)"
    by simp_all
  from sample_error_returns [OF assms(1) j(2)] obtain r where
    r: "sample_error src_roi (number_samples ! j) = Inr r" by blast
  show ?case
  proof (cases r)
    case None
    with r j(1) Cons.IH [OF rest] show ?thesis by simp
  next
    case (Some e)
    with r have "0 \<le> e" by (auto intro: sample_error_nonneg)
    then have "\<not> e < 0" by simp
    with r Some j(1) Cons.IH [OF rest] show ?thesis by simp
  qed
qed

lemma mat_roi_whole: "mat_ok m \<Longrightarrow> mat_roi m (whole m) = Inr m"
  by (simp add: mat_roi_def whole_def mat_ok_def list_all_iff map_idI)

lemma upt_split3: "k < n \<Longrightarrow> [0..<n] = [0..<k] @ k # [Suc k..<n]"
proof -
  assume k: "k < n"
  then have "[0..<k + (n - k)] = [0..<k] @ [k..<k + (n - k)]"
    by (intro upt_add_eq_append) simp
  with k have "[0..<n] = [0..<k] @ [k..<n]" by simp
  with k show ?thesis by (simp add: upt_conv_Cons)
qed

lemma detect_first_zero:
  assumes "10 \<le> length number_samples" "list_all mat_ok (take 10 number_samples)"
    and "mat_ok src_roi" "0 < avg_err_thres" "k < 10"
    and "sample_error src_roi (number_samples ! k) = Inr (Some 0)"
    and "\<forall>i < k. sample_error src_roi (number_samples ! i) \<noteq> Inr (Some 0)"
  shows "roi_loop src_roi number_samples [0..<10] (avg_err_thres, -1) = Inr (0, int k)"
proof -
  have ne: "\<not> mat_empty src_roi" using assms(3) by (rule mat_ok_not_empty)
  have all: "\<forall>j < 10. j < length number_samples \<and> \<not> mat_empty (number_samples ! j)"
    using assms(1,2) by (auto simp: list_all_length dest: mat_ok_not_empty)
  from roi_loop_positive [OF ne _ assms(4), of "[0..<k]" number_samples "-1"]
  obtain m j where pre: "roi_loop src_roi number_samples [0..<k] (avg_err_thres, -1) = Inr (m, j)"
    and m: "0 < m"
    using all assms(5,7) by auto
  have at_k: "roi_loop src_roi number_samples (k # [Suc k..<10]) (m, j) =
              roi_loop src_roi number_samples [Suc k..<10] (0, int k)"
    using assms(1,5,6) m by simp
  have post: "roi_loop src_roi number_samples [Suc k..<10] (0, int k) = Inr (0, int k)"
    using all by (intro roi_loop_zero [OF ne]) auto
  show ?thesis
    unfolding upt_split3 [OF assms(5)] roi_loop_append pre
    using at_k post by simp
qed

text \<open>
  Claim C7, as the code has it. For ten samples that are not empty, a digit \<open>d\<close> and a
  positive error threshold: the average error of sample \<open>d\<close> against itself is 0; its
  average error against a sample of the same size is the rounded fraction of the pixels
  where one image is 0xff and the other is 0; and \<^verbatim>\<open>detect_number_roi\<close> on the unmodified
  sample \<open>d\<close> returns the smallest index whose sample has the average error 0 against the
  image (resized to that sample's size; a sample that is skipped by the ratio check has
  no error). The result is \<open>d\<close> if and only if no sample with a smaller index has the
  average error 0: only a strictly smaller error replaces the current minimum.
\<close>

theorem C7_template_classifies_as_itself:
  assumes "10 \<le> length number_samples" "list_all mat_ok (take 10 number_samples)"
    and "d < 10" "0 < avg_err_thres"
  shows "sample_error (number_samples ! d) (number_samples ! d) = Inr (Some 0) \<and>
         (\<forall>i < 10. rows (number_samples ! i) = rows (number_samples ! d) \<and>
                   cols (number_samples ! i) = cols (number_samples ! d) \<longrightarrow>
            sample_error (number_samples ! d) (number_samples ! i) =
              Inr (Some (dbl_round (real (pixel_errors (number_samples ! d) (number_samples ! i)) /
                                    real (cols (number_samples ! d) * rows (number_samples ! d)))))) \<and>
         detect_number_roi (number_samples ! d) (whole (number_samples ! d)) number_samples avg_err_thres =
           Inr (int (LEAST i. sample_error (number_samples ! d) (number_samples ! i) = Inr (Some 0))) \<and>
         (detect_number_roi (number_samples ! d) (whole (number_samples ! d)) number_samples avg_err_thres =
            Inr (int d)) =
         (\<forall>i < d. sample_error (number_samples ! d) (number_samples ! i) \<noteq> Inr (Some 0))"
proof -
  let ?t = "number_samples ! d"
  let ?Z = "\<lambda>i. sample_error ?t (number_samples ! i) = Inr (Some 0)"
  let ?k = "LEAST i. ?Z i"
  have ok: "mat_ok ?t"
    using assms(1-3) by (simp add: list_all_length)
  have self: "?Z d" using ok by (rule sample_error_self)
  have kz: "?Z ?k" using self by (rule LeastI)
  have kd: "?k \<le> d" using self by (rule Least_le)
  have kmin: "\<forall>i < ?k. \<not> ?Z i" using not_less_Least by blast
  from kd assms(3) have k10: "?k < 10" by simp
  have thr: "0 < dbl_round avg_err_thres" using assms(4) by (rule dbl_round_pos)
  have loop: "roi_loop ?t number_samples [0..<10] (dbl_round avg_err_thres, -1) = Inr (0, int ?k)"
    using assms(1,2) ok thr k10 kz kmin by (rule detect_first_zero)
  have res: "detect_number_roi ?t (whole ?t) number_samples avg_err_thres = Inr (int ?k)"
    by (simp add: detect_number_roi_def mat_roi_whole [OF ok] loop)
  have "(?k = d) = (\<forall>i < d. \<not> ?Z i)"
  proof
    assume "?k = d"
    with kmin show "\<forall>i < d. \<not> ?Z i" by simp
  next
    assume a: "\<forall>i < d. \<not> ?Z i"
    with kz have "\<not> ?k < d" by blast
    with kd show "?k = d" by simp
  qed
  moreover have "\<forall>i < 10. rows (number_samples ! i) = rows ?t \<and> cols (number_samples ! i) = cols ?t \<longrightarrow>
            sample_error ?t (number_samples ! i) =
              Inr (Some (dbl_round (real (pixel_errors ?t (number_samples ! i)) /
                                    real (cols ?t * rows ?t))))"
    using sample_error_same_size [OF mat_ok_not_empty [OF ok]] by auto
  ultimately show ?thesis using self res by simp
qed

lemmas digit_eval = detect_number_roi_def mat_roi_def whole_def mat_ok_def mat_empty_def image_def
  sample_error_def resize_nearest_def pixel_errors_def Let_def upt_rec
  dbl_round_6_5 dbl_round_4_5 dbl_round_3_10 dbl_round_small

text \<open>
  Sample 1 of \<open>white_square_samples\<close>, the white square, is classified as digit 0: resized
  to the size of sample 0 it is one white pixel, the error against sample 0 is 0, and the
  error 0 against sample 1 itself is not strictly smaller.
\<close>

theorem C7_counterexample:
  "list_all mat_ok white_square_samples \<and>
   distinct white_square_samples \<and>
   sample_error (white_square_samples ! 1) (white_square_samples ! 0) = Inr (Some 0) \<and>
   detect_number_roi (white_square_samples ! 1) (whole (white_square_samples ! 1))
     white_square_samples (3 / 10) = Inr 0"
  by (simp add: white_square_samples_def digit_eval)

theorem C7_template_classifies_as_itself_witness:
  "detect_number_roi (binary_samples ! 3) (whole (binary_samples ! 3)) binary_samples (3 / 10) = Inr 3 \<and>
   sample_error (binary_samples ! 3) (binary_samples ! 3) = Inr (Some 0) \<and>
   sample_error (binary_samples ! 3) (binary_samples ! 0) = Inr (Some (1 / 4)) \<and>
   sample_error (binary_samples ! 3) (binary_samples ! 1) = Inr (Some (1 / 2)) \<and>
   sample_error (binary_samples ! 3) (binary_samples ! 2) = Inr (Some (1 / 4)) \<and>
   sample_error (binary_samples ! 3) (binary_samples ! 8) = Inr (Some (1 / 4)) \<and>
   sample_error (image [[0xff, 0], [0x80, 0x80]]) (image [[0, 0xff], [0xff, 0x80]]) = Inr (Some (1 / 2))"
proof -
  have e: "sample_error (binary_samples ! 3) (binary_samples ! 0) = Inr (Some (1 / 4))"
    "sample_error (binary_samples ! 3) (binary_samples ! 1) = Inr (Some (1 / 2))"
    "sample_error (binary_samples ! 3) (binary_samples ! 2) = Inr (Some (1 / 4))"
    "sample_error (image [[0xff, 0], [0x80, 0x80]]) (image [[0, 0xff], [0xff, 0x80]]) = Inr (Some (1 / 2))"
    by (simp_all add: binary_samples_def digit_eval)
  have all: "\<forall>i < 3. sample_error (binary_samples ! 3) (binary_samples ! i) \<noteq> Inr (Some 0)"
  proof (intro allI impI)
    fix i :: nat assume "i < 3"
    then consider "i = 0" | "i = 1" | "i = 2" by linarith
    then show "sample_error (binary_samples ! 3) (binary_samples ! i) \<noteq> Inr (Some 0)"
      using e by cases simp_all
  qed
  have h1: "10 \<le> length binary_samples" by (simp add: binary_samples_def)
  have h2: "list_all mat_ok (take 10 binary_samples)"
    by (simp add: binary_samples_def mat_ok_def image_def)
  have h3: "(3::nat) < 10" and h4: "(0::real) < 3 / 10" by simp_all
  note c7 = C7_template_classifies_as_itself [OF h1 h2 h3 h4]
  from c7 have self: "sample_error (binary_samples ! 3) (binary_samples ! 3) = Inr (Some 0)"
    by (rule conjunct1)
  from c7 have "(detect_number_roi (binary_samples ! 3) (whole (binary_samples ! 3)) binary_samples (3 / 10) =
                 Inr (int 3)) =
              (\<forall>i < 3. sample_error (binary_samples ! 3) (binary_samples ! i) \<noteq> Inr (Some 0))"
    by (rule conjunct2 [THEN conjunct2, THEN conjunct2])
  with all have "detect_number_roi (binary_samples ! 3) (whole (binary_samples ! 3))
      binary_samples (3 / 10) = Inr 3" by simp
  moreover have "sample_error (binary_samples ! 3) (binary_samples ! 8) = Inr (Some (1 / 4))"
  proof -
    from c7 have q: "\<forall>i < 10. rows (binary_samples ! i) = rows (binary_samples ! 3) \<and>
                   cols (binary_samples ! i) = cols (binary_samples ! 3) \<longrightarrow>
            sample_error (binary_samples ! 3) (binary_samples ! i) =
              Inr (Some (dbl_round (real (pixel_errors (binary_samples ! 3) (binary_samples ! i)) /
                                    real (cols (binary_samples ! 3) * rows (binary_samples ! 3)))))"
      by (rule conjunct2 [THEN conjunct1])
    have lt: "(8::nat) < 10" by simp
    have dims: "rows (binary_samples ! 8) = rows (binary_samples ! 3) \<and>
                cols (binary_samples ! 8) = cols (binary_samples ! 3)"
      by (simp add: binary_samples_def image_def)
    have v: "dbl_round (real (pixel_errors (binary_samples ! 3) (binary_samples ! 8)) /
                        real (cols (binary_samples ! 3) * rows (binary_samples ! 3))) = 1 / 4"
      by (simp add: binary_samples_def image_def pixel_errors_def upt_rec dbl_round_small)
    from q [rule_format, OF lt dims] show ?thesis by (simp only: v)
  qed
  ultimately show ?thesis using self e by simp
qed

text \<open>
  The ratio check and the resizing in \<^verbatim>\<open>double\<close> arithmetic. A region of 12 x 5 pixels is
  skipped for a sample of 15 x 5 pixels, and a region of 2 x 5 pixels for a sample of
  1 x 3 pixels, although the quotients of the ratios are 0.8 and 1.2 as real numbers.
  Resizing a row of 14 pixels to 18 pixels takes column 9 from column 6 of the source:
  9 * (1 / (18 / 14)) is rounded to a number below 7.
\<close>

lemma ratio_check_rounds:
  "sample_error \<lparr> rows = 12, cols = 5, data = region \<rparr> \<lparr> rows = 15, cols = 5, data = sample \<rparr> = Inr None \<and>
   sample_error \<lparr> rows = 2, cols = 5, data = region \<rparr> \<lparr> rows = 1, cols = 3, data = sample \<rparr> = Inr None"
  by (simp add: sample_error_def Let_def dbl_round_6_5 dbl_round_4_5 dbl_round_12_5 dbl_round_12_5_by_3
        dbl_round_2_5 dbl_round_1_3 dbl_round_2_5_by_1_3 dbl_round_int [of 3, simplified])

lemma resize_nearest_rounds:
  "data (resize_nearest (image [[0, 1, 2, 3, 4, 5, 6, 7, 8, 9, 10, 11, 12, 13]]) 18 1) ! 0 ! 9 = 6"
  by (simp add: resize_nearest_def image_def Let_def dbl_round_9_7 dbl_round_inv_9_7 dbl_round_9_times)

section \<open>Properties of the numbers at fixed locations\<close>

lemma mat_roi_ok:
  assumes "mat_ok src" "box_inside src box"
  shows "\<exists>src_roi. mat_roi src box = Inr src_roi \<and> mat_ok src_roi"
proof -
  let ?rs = "take (nat (rect_height box)) (drop (nat (rect_y box)) (data src))"
  let ?roi = "\<lparr> rows = nat (rect_height box), cols = nat (rect_width box),
                data = map (\<lambda>r. take (nat (rect_width box)) (drop (nat (rect_x box)) r)) ?rs \<rparr>"
  have eq: "mat_roi src box = Inr ?roi"
    using assms(2) by (simp add: mat_roi_def box_inside_def)
  have len: "length ?rs = nat (rect_height box)"
    using assms by (auto simp: box_inside_def mat_ok_def min_def)
  have all: "\<forall>r \<in> set ?rs. length r = cols src"
    using assms(1) by (auto simp: mat_ok_def list_all_iff dest!: in_set_takeD in_set_dropD)
  have w: "\<forall>r \<in> set ?rs. length (take (nat (rect_width box)) (drop (nat (rect_x box)) r)) = nat (rect_width box)"
    using all assms(2) by (auto simp: box_inside_def)
  have "mat_ok ?roi"
    unfolding mat_ok_def using w len assms(2) by (simp add: box_inside_def list_all_iff)
  with eq show ?thesis by blast
qed

lemma roi_loop_range:
  assumes "\<not> mat_empty src_roi"
  shows "\<forall>j \<in> set js. j < length number_samples \<and> \<not> mat_empty (number_samples ! j) \<Longrightarrow>
         \<exists>m' k'. roi_loop src_roi number_samples js (m, k) = Inr (m', k') \<and>
                  (k' = k \<or> k' \<in> int ` set js)"
proof (induction js arbitrary: m k)
  case Nil
  show ?case by simp
next
  case (Cons j js)
  then have j: "j < length number_samples" "\<not> mat_empty (number_samples ! j)"
    and rest: "\<forall>j \<in> set js. j < length number_samples \<and> \<not> mat_empty (number_samples ! j)"
    by simp_all
  from sample_error_returns [OF assms j(2)] obtain r where
    r: "sample_error src_roi (number_samples ! j) = Inr r" by blast
  show ?case
  proof (cases r)
    case None
    with r j(1) Cons.IH [OF rest, of m k] show ?thesis by auto
  next
    case (Some e)
    show ?thesis
    proof (cases "e < m")
      case True
      with r Some j(1) Cons.IH [OF rest, of e "int j"] show ?thesis by auto
    next
      case False
      with r Some j(1) Cons.IH [OF rest, of m k] show ?thesis by auto
    qed
  qed
qed

lemma detect_number_roi_returns:
  assumes "mat_ok src" "box_inside src box" "10 \<le> length number_samples"
    "list_all mat_ok (take 10 number_samples)"
  shows "\<exists>n. detect_number_roi src box number_samples avg_err_thres = Inr n \<and>
             (n = -1 \<or> 0 \<le> n \<and> n \<le> 9)"
proof -
  from mat_roi_ok [OF assms(1,2)] obtain src_roi where
    roi: "mat_roi src box = Inr src_roi" "mat_ok src_roi" by blast
  have ne: "\<not> mat_empty src_roi" using roi(2) by (rule mat_ok_not_empty)
  have all: "\<forall>j \<in> set [0..<10]. j < length number_samples \<and> \<not> mat_empty (number_samples ! j)"
    using assms(3,4) by (auto simp: list_all_length dest: mat_ok_not_empty)
  from roi_loop_range [OF ne all, of "dbl_round avg_err_thres" "-1"] obtain m' k' where
    l: "roi_loop src_roi number_samples [0..<10] (dbl_round avg_err_thres, -1) = Inr (m', k')"
    and k: "k' = -1 \<or> k' \<in> int ` set [0..<10]" by blast
  from k have "k' = -1 \<or> 0 \<le> k' \<and> k' \<le> 9" by auto
  with roi(1) l show ?thesis by (simp add: detect_number_roi_def)
qed

lemma contour_loop_recognized:
  assumes "mat_ok src" "10 \<le> length number_samples" "list_all mat_ok (take 10 number_samples)"
  shows "list_all (box_inside src) boxes \<Longrightarrow>
         contour_loop src number_samples avg_err_thres size_restrict boxes coord_num_map =
           Inr (fold map_insert (recognized src number_samples avg_err_thres size_restrict boxes) coord_num_map)"
proof (induction boxes arbitrary: coord_num_map)
  case Nil
  show ?case by simp
next
  case (Cons number_box boxes)
  then have inside: "box_inside src number_box" and rest: "list_all (box_inside src) boxes" by simp_all
  from detect_number_roi_returns [OF assms(1) inside assms(2,3)]
  obtain n where n: "detect_number_roi src number_box number_samples avg_err_thres = Inr n" by blast
  show ?case using Cons.IH [OF rest] n by simp
qed

lemma recognized_digits:
  assumes "mat_ok src" "10 \<le> length number_samples" "list_all mat_ok (take 10 number_samples)"
    and "list_all (box_inside src) boxes"
  shows "list_all (\<lambda>e. 0 \<le> snd e \<and> snd e \<le> 9)
           (recognized src number_samples avg_err_thres size_restrict boxes)"
  using assms(4)
proof (induction boxes)
  case Nil
  show ?case by simp
next
  case (Cons number_box boxes)
  then have inside: "box_inside src number_box" and rest: "list_all (box_inside src) boxes" by simp_all
  from detect_number_roi_returns [OF assms(1) inside assms(2,3)]
  obtain n where n: "detect_number_roi src number_box number_samples avg_err_thres = Inr n"
    and nr: "n = -1 \<or> 0 \<le> n \<and> n \<le> 9" by blast
  show ?case using Cons.IH [OF rest] nr by (auto simp: n)
qed

lemma keys_map_insert: "fst ` set (map_insert kv m) = insert (fst kv) (fst ` set m)"
  by (induction m) auto

lemma sorted_map_insert:
  "sorted_wrt (<) (map fst m) \<Longrightarrow> sorted_wrt (<) (map fst (map_insert kv m))"
proof (induction m)
  case Nil
  show ?case by simp
next
  case (Cons e es)
  then have es: "sorted_wrt (<) (map fst es)" and lt: "\<forall>k \<in> fst ` set es. fst e < k" by auto
  show ?case
  proof (cases "fst kv < fst e")
    case True
    with Cons.prems lt show ?thesis by auto
  next
    case False
    show ?thesis
    proof (cases "fst kv = fst e")
      case True
      with Cons.prems show ?thesis by simp
    next
      case ne: False
      with False have "fst e < fst kv" by simp
      with lt have "\<forall>k \<in> fst ` set (map_insert kv es). fst e < k"
        by (simp add: keys_map_insert)
      with Cons.IH [OF es] False ne show ?thesis by simp
    qed
  qed
qed

lemma set_map_insert:
  "sorted_wrt (<) (map fst m) \<Longrightarrow>
   set (map_insert kv m) = (if fst kv \<in> fst ` set m then set m else insert kv (set m))"
proof (induction m)
  case Nil
  show ?case by simp
next
  case (Cons e es)
  then have es: "sorted_wrt (<) (map fst es)" and lt: "\<forall>k \<in> fst ` set es. fst e < k" by auto
  show ?case
  proof (cases "fst kv < fst e")
    case True
    with lt have "fst kv \<notin> fst ` set (e # es)" by auto
    with True show ?thesis by simp
  next
    case False
    show ?thesis
    proof (cases "fst kv = fst e")
      case True
      then show ?thesis by simp
    next
      case ne: False
      with False Cons.IH [OF es] show ?thesis by auto
    qed
  qed
qed

lemma sorted_fold_map_insert:
  "sorted_wrt (<) (map fst m) \<Longrightarrow> sorted_wrt (<) (map fst (fold map_insert rs m))"
  by (induction rs arbitrary: m) (simp_all add: sorted_map_insert)

lemma set_fold_map_insert:
  "sorted_wrt (<) (map fst m) \<Longrightarrow>
   set (fold map_insert rs m) = set m \<union> set (keep_first (filter (\<lambda>q. fst q \<notin> fst ` set m) rs))"
proof (induction rs arbitrary: m)
  case Nil
  show ?case by simp
next
  case (Cons r rs)
  have srt: "sorted_wrt (<) (map fst (map_insert r m))"
    using Cons.prems by (rule sorted_map_insert)
  note IH = Cons.IH [OF srt]
  show ?case
  proof (cases "fst r \<in> fst ` set m")
    case True
    then have "set (map_insert r m) = set m" using Cons.prems by (simp add: set_map_insert)
    then show ?thesis using IH True by simp
  next
    case False
    then have s: "set (map_insert r m) = insert r (set m)"
      using Cons.prems by (simp add: set_map_insert)
    have f: "filter (\<lambda>q. fst q \<notin> fst ` insert r (set m)) rs =
             filter (\<lambda>q. fst q \<noteq> fst r) (filter (\<lambda>q. fst q \<notin> fst ` set m) rs)"
      by (auto intro: filter_cong)
    have "set (fold map_insert (r # rs) m) =
          insert r (set m) \<union> set (keep_first (filter (\<lambda>q. fst q \<notin> fst ` insert r (set m)) rs))"
      using IH by (simp only: fold_simps s)
    also have "\<dots> = set m \<union> set (keep_first (filter (\<lambda>q. fst q \<notin> fst ` set m) (r # rs)))"
      using False by (simp only: f filter.simps keep_first.simps list.set if_True simp_thms) auto
    finally show ?thesis .
  qed
qed

lemma keys_keep_first: "fst ` set (keep_first rs) \<subseteq> fst ` set rs"
  by (induction rs rule: keep_first.induct) auto

lemma set_keep_first: "set (keep_first rs) \<subseteq> set rs"
  by (induction rs rule: keep_first.induct) auto

lemma distinct_keep_first: "distinct (map fst (keep_first rs))"
proof (induction rs rule: keep_first.induct)
  case 1
  show ?case by simp
next
  case (2 e es)
  have "fst e \<notin> fst ` set (keep_first (filter (\<lambda>q. fst q \<noteq> fst e) es))"
    using keys_keep_first [of "filter (\<lambda>q. fst q \<noteq> fst e) es"] by auto
  with 2 show ?case by simp
qed

lemma fold_map_insert_sorted:
  "fold map_insert rs [] = sort_key fst (keep_first rs)"
proof (rule map_sorted_distinct_set_unique [where f = fst])
  have d: "distinct (map fst (keep_first rs))" by (rule distinct_keep_first)
  have s: "set (fold map_insert rs []) = set (keep_first rs)"
    by (simp add: set_fold_map_insert)
  show "set (fold map_insert rs []) = set (sort_key fst (keep_first rs))" by (simp add: s)
  show "inj_on fst (set (fold map_insert rs []) \<union> set (sort_key fst (keep_first rs)))"
    using d by (simp add: s distinct_map)
  have srt: "sorted_wrt (<) (map fst (fold map_insert rs []))"
    by (rule sorted_fold_map_insert) simp
  then show "sorted (map fst (fold map_insert rs []))" "distinct (map fst (fold map_insert rs []))"
    by (simp_all add: strict_sorted_iff)
  show "sorted (map fst (sort_key fst (keep_first rs)))" by (rule sorted_sort_key)
  have "card (set (map fst (sort_key fst (keep_first rs)))) = length (map fst (sort_key fst (keep_first rs)))"
    using distinct_card [OF d] by simp
  then show "distinct (map fst (sort_key fst (keep_first rs)))" by (rule card_distinct)
qed

lemma fold_compose:
  "fold (\<lambda>e cooldown. cooldown * 10 + word_of_int (snd e)) m (word_of_int c :: 32 word) =
     word_of_int (c * 10 ^ length m + decimal (map snd m))"
proof (induction m arbitrary: c)
  case Nil
  show ?case by simp
next
  case (Cons e m)
  have w: "(word_of_int c :: 32 word) * 10 + word_of_int (snd e) = word_of_int (c * 10 + snd e)"
    by (simp add: wi_hom_syms)
  have a: "(c * 10 + snd e) * 10 ^ length m + decimal (map snd m) =
           c * 10 ^ length (e # m) + decimal (map snd (e # m))"
    by (simp add: algebra_simps)
  have "fold (\<lambda>e cooldown. cooldown * 10 + word_of_int (snd e)) (e # m) (word_of_int c :: 32 word) =
        fold (\<lambda>e cooldown. cooldown * 10 + word_of_int (snd e)) m (word_of_int (c * 10 + snd e))"
    by (simp only: fold_simps w)
  also have "\<dots> = word_of_int ((c * 10 + snd e) * 10 ^ length m + decimal (map snd m))"
    by (rule Cons.IH)
  finally show ?case by (simp only: a)
qed

lemma compose_digits_decimal: "compose_digits m = word_of_int (decimal (map snd m))"
  using fold_compose [of m 0] by (simp add: compose_digits_def)

lemma decimal_bounds:
  "\<forall>d \<in> set ds. 0 \<le> d \<and> d \<le> 9 \<Longrightarrow> 0 \<le> decimal ds \<and> decimal ds < 10 ^ length ds"
proof (induction ds)
  case Nil
  show ?case by simp
next
  case (Cons d ds)
  then have d: "0 \<le> d" "d \<le> 9" and IH: "0 \<le> decimal ds" "decimal ds < 10 ^ length ds" by simp_all
  have u: "d * 10 ^ length ds \<le> 9 * 10 ^ length ds" using d(2) by (intro mult_right_mono) simp_all
  have l: "0 \<le> d * 10 ^ length ds" using d(1) by simp
  have "0 \<le> d * 10 ^ length ds + decimal ds" using l IH(1) by linarith
  moreover have "d * 10 ^ length ds + decimal ds < 10 * 10 ^ length ds" using u IH(2) by linarith
  ultimately show ?case by simp
qed

lemma sint_decimal:
  assumes "\<forall>d \<in> set ds. 0 \<le> d \<and> d \<le> 9" "length ds \<le> 9"
  shows "sint (word_of_int (decimal ds) :: 32 word) = decimal ds"
proof -
  from decimal_bounds [OF assms(1)] have b: "0 \<le> decimal ds" "decimal ds < 10 ^ length ds" by simp_all
  have "(10::int) ^ length ds \<le> 10 ^ 9" using assms(2) by (intro power_increasing) simp_all
  with b have "decimal ds < 2 ^ 31" by simp
  with b(1) have "signed_take_bit 31 (decimal ds) = decimal ds"
    by (intro signed_take_bit_int_eq_self) simp_all
  then show ?thesis by (simp add: sint_sbintrunc')
qed

text \<open>
  Claim C9, as the code has it. For an image that is not empty, the bounding rectangles
  of its contours and ten samples that are not empty, \<^verbatim>\<open>detect_number_fixed\<close> returns the
  number whose decimal digits are the recognized digits in ascending order of their
  x-coordinates, the digit with the smallest x-coordinate first, where of several
  recognized regions with the same x-coordinate only the first in contour order counts
  (\<^verbatim>\<open>std::map::insert\<close> keeps the entry that is present), reduced to a signed 32-bit
  number; with at most nine digits this is the number itself. Without a recognized digit
  the result is 0, as it is when the only recognized digit is 0.
\<close>

theorem C9_digits_in_ascending_x:
  assumes "mat_ok src" "list_all (box_inside src) boxes"
    "10 \<le> length number_samples" "list_all mat_ok (take 10 number_samples)"
  shows "detect_number_fixed src boxes number_samples avg_err_thres size_restrict =
           Inr (sint (word_of_int (decimal (map snd (sort_key fst
                  (keep_first (recognized src number_samples avg_err_thres size_restrict boxes)))))
                :: 32 word)) \<and>
         (length (keep_first (recognized src number_samples avg_err_thres size_restrict boxes)) \<le> 9 \<longrightarrow>
          detect_number_fixed src boxes number_samples avg_err_thres size_restrict =
            Inr (decimal (map snd (sort_key fst
                  (keep_first (recognized src number_samples avg_err_thres size_restrict boxes)))))) \<and>
         (recognized src number_samples avg_err_thres size_restrict boxes = [] \<longrightarrow>
          detect_number_fixed src boxes number_samples avg_err_thres size_restrict = Inr 0) \<and>
         (map snd (recognized src number_samples avg_err_thres size_restrict boxes) = [0] \<longrightarrow>
          detect_number_fixed src boxes number_samples avg_err_thres size_restrict = Inr 0)"
proof -
  let ?rec = "recognized src number_samples avg_err_thres size_restrict boxes"
  let ?ds = "map snd (sort_key fst (keep_first ?rec))"
  have r: "detect_number_fixed src boxes number_samples avg_err_thres size_restrict =
           Inr (sint (word_of_int (decimal ?ds) :: 32 word))"
    by (simp add: detect_number_fixed_def contour_loop_recognized [OF assms(1,3,4,2)]
          fold_map_insert_sorted compose_digits_decimal)
  have dig: "\<forall>d \<in> set ?ds. 0 \<le> d \<and> d \<le> 9"
    using recognized_digits [OF assms(1,3,4,2), of avg_err_thres size_restrict]
      set_keep_first [of ?rec] by (auto simp: list_all_iff)
  have nine: "length (keep_first ?rec) \<le> 9 \<longrightarrow> sint (word_of_int (decimal ?ds) :: 32 word) = decimal ?ds"
    using sint_decimal [OF dig] by simp
  have none: "?rec = [] \<longrightarrow> sint (word_of_int (decimal ?ds) :: 32 word) = 0"
    by simp
  have zero: "map snd ?rec = [0] \<longrightarrow> sint (word_of_int (decimal ?ds) :: 32 word) = 0"
  proof
    assume "map snd ?rec = [0]"
    then obtain e where e: "?rec = [e]" "snd e = 0" by (cases ?rec) auto
    then show "sint (word_of_int (decimal ?ds) :: 32 word) = 0" by simp
  qed
  from r nine none zero show ?thesis by simp
qed

lemmas fixed_eval = detect_number_fixed_def size_accepted_def compose_digits_def dbl_round_small

lemma stacked_roi:
  "detect_number_roi stacked_src (stacked_boxes ! 0) binary_samples (3 / 10) = Inr 3"
  "detect_number_roi stacked_src (stacked_boxes ! 1) binary_samples (3 / 10) = Inr 8"
  by (simp_all add: stacked_src_def stacked_boxes_def binary_samples_def digit_eval)

text \<open>
  In \<open>stacked_src\<close> both regions are recognized, as 3 and as 8, and both have x = 0; the
  result is 3 and not a number of two digits.
\<close>

theorem C9_counterexample:
  "recognized stacked_src binary_samples (3 / 10) (2, 2, 2, 2) stacked_boxes = [(0, 3), (0, 8)] \<and>
   detect_number_fixed stacked_src stacked_boxes binary_samples (3 / 10) (2, 2, 2, 2) = Inr 3"
  using stacked_roi
  by (simp add: stacked_boxes_def fixed_eval stacked_src_def image_def)

lemma side_roi:
  "detect_number_roi side_src (side_boxes ! 0) binary_samples (3 / 10) = Inr 3"
  "detect_number_roi side_src (side_boxes ! 1) binary_samples (3 / 10) = Inr 8"
  by (simp_all add: side_src_def side_boxes_def binary_samples_def digit_eval)

lemma side_recognized:
  "recognized side_src binary_samples (3 / 10) (2, 2, 2, 2) side_boxes = [(3, 3), (0, 8)]"
  using side_roi
  by (simp add: side_boxes_def fixed_eval side_src_def image_def)

lemma relative_roi:
  "detect_number_roi relative_src (relative_boxes ! 1) binary_samples (3 / 10) = Inr 3"
  "detect_number_roi relative_src (relative_boxes ! 2) binary_samples (3 / 10) = Inr 8"
  by (simp_all add: relative_src_def relative_boxes_def binary_samples_def digit_eval)

lemma relative_number:
  "recognized relative_src binary_samples (3 / 10) (0, 0, 0, 0) relative_boxes = [(4, 3), (0, 8)] \<and>
   detect_number_fixed relative_src relative_boxes binary_samples (3 / 10) (0, 0, 0, 0) = Inr 83"
  using relative_roi
  by (simp add: relative_boxes_def fixed_eval relative_src_def image_def
        dbl_round_13_10 dbl_round_8_5 dbl_round_41_10 dbl_round_93_10
        dbl_round_3_by_1_3 dbl_round_3_by_1_6 dbl_round_9_by_4_1 dbl_round_9_by_9_3)

lemma zero_roi:
  "detect_number_roi zero_src (zero_boxes ! 0) binary_samples (3 / 10) = Inr 0"
  by (simp add: zero_src_def zero_boxes_def binary_samples_def digit_eval)

lemma zero_recognized:
  "recognized zero_src binary_samples (3 / 10) (2, 2, 2, 2) zero_boxes = [(0, 0)]"
  using zero_roi
  by (simp add: zero_boxes_def fixed_eval zero_src_def image_def)

theorem C9_digits_in_ascending_x_witness:
  "recognized side_src binary_samples (3 / 10) (2, 2, 2, 2) side_boxes = [(3, 3), (0, 8)] \<and>
   detect_number_fixed side_src side_boxes binary_samples (3 / 10) (2, 2, 2, 2) = Inr 83 \<and>
   recognized relative_src binary_samples (3 / 10) (0, 0, 0, 0) relative_boxes = [(4, 3), (0, 8)] \<and>
   detect_number_fixed relative_src relative_boxes binary_samples (3 / 10) (0, 0, 0, 0) = Inr 83 \<and>
   detect_number_fixed side_src [] binary_samples (3 / 10) (2, 2, 2, 2) = Inr 0 \<and>
   recognized zero_src binary_samples (3 / 10) (2, 2, 2, 2) zero_boxes = [(0, 0)] \<and>
   detect_number_fixed zero_src zero_boxes binary_samples (3 / 10) (2, 2, 2, 2) = Inr 0"
proof -
  have h1: "mat_ok side_src"
    by (simp add: side_src_def mat_ok_def image_def)
  have h2: "list_all (box_inside side_src) side_boxes"
    by (simp add: side_src_def side_boxes_def box_inside_def image_def)
  have h3: "10 \<le> length binary_samples"
    by (simp add: binary_samples_def)
  have h4: "list_all mat_ok (take 10 binary_samples)"
    by (simp add: binary_samples_def mat_ok_def image_def)
  have h5: "list_all (box_inside side_src) []" by simp
  have h6: "mat_ok zero_src"
    by (simp add: zero_src_def mat_ok_def image_def)
  have h7: "list_all (box_inside zero_src) zero_boxes"
    by (simp add: zero_src_def zero_boxes_def box_inside_def image_def)
  from C9_digits_in_ascending_x [OF h1 h2 h3 h4, of "3 / 10" "(2, 2, 2, 2)"]
    C9_digits_in_ascending_x [OF h1 h5 h3 h4, of "3 / 10" "(2, 2, 2, 2)"]
    C9_digits_in_ascending_x [OF h6 h7 h3 h4, of "3 / 10" "(2, 2, 2, 2)"]
  show ?thesis
    using relative_number by (simp add: side_recognized zero_recognized)
qed

lemma zero_reading_ambiguous:
  "decimal (map snd (sort_key fst (keep_first []))) = 0 \<and>
   decimal (map snd (sort_key fst (keep_first [(x, 0)]))) = 0"
  by simp

end
